(* ===== verification/Prelude.thy ===== *)
theory Prelude
  imports Main "HOL-Library.AList" "HOL-Library.Char_ord"
begin

text \<open>
  Shared vocabulary of the development: results of C++ functions (a value, an exception that
  leaves the function, or undefined behaviour), byte strings and the operations of
  \<^verbatim>\<open>std::string\<close> / \<^verbatim>\<open>std::string_view\<close> the program uses, string-keyed maps
  (\<^verbatim>\<open>std::map\<close>, \<^verbatim>\<open>std::unordered_map\<close>) as association lists with one entry
  per key, and the interface \<open>field_codec\<close> that the two escape decoders of the program share.

  A \<open>char\<close> is a byte, so a \<open>string\<close> is exactly a \<^verbatim>\<open>std::string\<close>, NUL bytes included.
\<close>

named_theorems res_simps \<open>evaluation of results\<close>
named_theorems str_simps \<open>evaluation of string operations\<close>

section \<open>Results\<close>

datatype exn =
    LengthError            \<comment> \<open>\<^verbatim>\<open>std::length_error\<close>\<close>
  | OutOfRange             \<comment> \<open>\<^verbatim>\<open>std::out_of_range\<close>\<close>
  | SystemError            \<comment> \<open>\<^verbatim>\<open>std::system_error\<close>\<close>

datatype 'a res = Ok 'a | Exn exn | UB

fun rbind :: "'a res \<Rightarrow> ('a \<Rightarrow> 'b res) \<Rightarrow> 'b res" where
  "rbind (Ok x) f = f x"
| "rbind (Exn e) f = Exn e"
| "rbind UB f = UB"

lemma rbind_eq_Ok [res_simps]: "rbind m f = Ok y \<longleftrightarrow> (\<exists>x. m = Ok x \<and> f x = Ok y)"
  by (cases m) auto

lemma rbind_eq_Exn [res_simps]:
  "rbind m f = Exn e \<longleftrightarrow> m = Exn e \<or> (\<exists>x. m = Ok x \<and> f x = Exn e)"
  by (cases m) auto

lemma rbind_eq_UB [res_simps]: "rbind m f = UB \<longleftrightarrow> m = UB \<or> (\<exists>x. m = Ok x \<and> f x = UB)"
  by (cases m) auto

lemma rbind_Ok_right [simp]: "rbind m Ok = m"
  by (cases m) auto

lemma rbind_assoc: "rbind (rbind m f) g = rbind m (\<lambda>x. rbind (f x) g)"
  by (cases m) auto

fun ok_or :: "'a \<Rightarrow> 'a res \<Rightarrow> 'a" where
  "ok_or d (Ok x) = x"
| "ok_or d (Exn e) = d"
| "ok_or d UB = d"

text \<open>A read through a pointer or an iterator: outside the object it is undefined.\<close>

fun of_read :: "'a option \<Rightarrow> 'a res" where
  "of_read None = UB"
| "of_read (Some x) = Ok x"

section \<open>Byte strings\<close>

definition NUL :: char where
  "NUL = CHR 0x00"

text \<open>What a function that takes a \<^verbatim>\<open>const char*\<close> sees of a NUL-terminated buffer.\<close>

definition cstr :: "string \<Rightarrow> string" where
  "cstr s = takeWhile (\<lambda>c. c \<noteq> NUL) s"

text \<open>\<^verbatim>\<open>s[i]\<close> of a \<^verbatim>\<open>std::string\<close>: index \<^verbatim>\<open>size()\<close> is the terminator.\<close>

definition str_at :: "string \<Rightarrow> nat \<Rightarrow> char option" where
  "str_at s i = (if i < length s then Some (s ! i) else if i = length s then Some NUL else None)"

fun find_char :: "char \<Rightarrow> string \<Rightarrow> nat option" where
  "find_char c [] = None"
| "find_char c (x # xs) = (if x = c then Some 0 else map_option Suc (find_char c xs))"

fun rfind_char :: "char \<Rightarrow> string \<Rightarrow> nat option" where
  "rfind_char c [] = None"
| "rfind_char c (x # xs) =
     (case rfind_char c xs of
        Some n \<Rightarrow> Some (Suc n)
      | None \<Rightarrow> if x = c then Some 0 else None)"

fun starts_with :: "string \<Rightarrow> string \<Rightarrow> bool" where
  "starts_with s [] = True"
| "starts_with [] (p # ps) = False"
| "starts_with (x # xs) (p # ps) = (x = p \<and> starts_with xs ps)"

text \<open>\<^verbatim>\<open>s.find(p) != npos\<close>.\<close>

fun has_substr :: "string \<Rightarrow> string \<Rightarrow> bool" where
  "has_substr [] p = (p = [])"
| "has_substr (x # xs) p = (starts_with (x # xs) p \<or> has_substr xs p)"

text \<open>\<^verbatim>\<open>std::isspace\<close> in the classic locale.\<close>

definition is_space :: "char \<Rightarrow> bool" where
  "is_space c = (c = CHR '' '' \<or> c = CHR 0x09 \<or> c = CHR 0x0A \<or> c = CHR 0x0B \<or>
                 c = CHR 0x0C \<or> c = CHR 0x0D)"

fun intercalate :: "string \<Rightarrow> string list \<Rightarrow> string" where
  "intercalate sep [] = []"
| "intercalate sep [x] = x"
| "intercalate sep (x # y # xs) = x @ sep @ intercalate sep (y # xs)"

lemma intercalate_Cons:
  "intercalate sep (x # xs) = (if xs = [] then x else x @ sep @ intercalate sep xs)"
  by (cases xs) auto

lemma find_char_None [str_simps]: "find_char c s = None \<longleftrightarrow> c \<notin> set s"
  by (induction s) auto

lemma find_char_Some [str_simps]:
  "find_char c s = Some n \<longleftrightarrow> n < length s \<and> s ! n = c \<and> c \<notin> set (take n s)"
proof (induction s arbitrary: n)
  case Nil
  then show ?case by simp
next
  case (Cons x xs)
  show ?case
    by (cases n) (auto simp: Cons)
qed

lemma find_char_append:
  "c \<notin> set u \<Longrightarrow> find_char c (u @ c # v) = Some (length u)"
  by (simp add: find_char_Some)

lemma find_char_split:
  "find_char c s = Some n \<Longrightarrow> s = take n s @ c # drop (Suc n) s"
  by (auto simp: find_char_Some id_take_nth_drop)

lemma rfind_char_None [str_simps]: "rfind_char c s = None \<longleftrightarrow> c \<notin> set s"
  by (induction s) (auto split: option.splits)

lemma rfind_char_Some:
  "rfind_char c s = Some n \<longleftrightarrow> n < length s \<and> s ! n = c \<and> c \<notin> set (drop (Suc n) s)"
proof (induction s arbitrary: n)
  case Nil
  then show ?case by simp
next
  case (Cons x xs)
  show ?case
  proof (cases n)
    case 0
    have "rfind_char c (x # xs) = Some 0 \<longleftrightarrow> rfind_char c xs = None \<and> x = c"
      by (auto split: option.splits)
    with 0 show ?thesis by (simp add: rfind_char_None conj_commute)
  next
    case (Suc m)
    have "rfind_char c (x # xs) = Some (Suc m) \<longleftrightarrow> rfind_char c xs = Some m"
      by (auto split: option.splits)
    with Suc show ?thesis by (simp add: Cons)
  qed
qed

lemma starts_with_iff: "starts_with s p \<longleftrightarrow> (\<exists>r. s = p @ r)"
  by (induction s p rule: starts_with.induct) auto

lemma starts_with_append [simp]: "starts_with (p @ r) p"
  by (auto simp: starts_with_iff)

lemma has_substr_iff: "has_substr s p \<longleftrightarrow> (\<exists>u v. s = u @ p @ v)"
proof (induction s)
  case Nil
  then show ?case by auto
next
  case (Cons x xs)
  show ?case
  proof
    assume "has_substr (x # xs) p"
    then show "\<exists>u v. x # xs = u @ p @ v"
      by (auto simp: starts_with_iff Cons) (metis append_Nil, metis append_Cons)
  next
    assume "\<exists>u v. x # xs = u @ p @ v"
    then obtain u v where uv: "x # xs = u @ p @ v" by blast
    show "has_substr (x # xs) p"
    proof (cases u)
      case Nil
      then have "starts_with (x # xs) p" using uv by (simp add: starts_with_iff)
      then show ?thesis by simp
    next
      case (Cons y u')
      then have "xs = u' @ p @ v" using uv by simp
      then show ?thesis using \<open>has_substr xs p \<longleftrightarrow> _\<close> by auto
    qed
  qed
qed

lemma cstr_id: "NUL \<notin> set s \<Longrightarrow> cstr s = s"
  by (metis (mono_tags, lifting) cstr_def takeWhile_eq_all_conv)

lemma NUL_notin_cstr [simp]: "NUL \<notin> set (cstr s)"
  by (auto simp: cstr_def dest: set_takeWhileD)

lemma cstr_append: "NUL \<notin> set u \<Longrightarrow> cstr (u @ v) = u @ cstr v"
  unfolding cstr_def by (rule takeWhile_append2) auto

lemma starts_with_cstr:
  assumes "NUL \<notin> set p" and "starts_with s p"
  shows "starts_with (cstr s) p"
  using assms by (auto simp: starts_with_iff cstr_append)

section \<open>String-keyed maps\<close>

type_synonym 'v smap = "(string \<times> 'v) list"

abbreviation smap_get :: "'v smap \<Rightarrow> string \<Rightarrow> 'v option" where
  "smap_get m k \<equiv> map_of m k"

text \<open>\<^verbatim>\<open>m[k] = v\<close>.\<close>

abbreviation smap_put :: "string \<Rightarrow> 'v \<Rightarrow> 'v smap \<Rightarrow> 'v smap" where
  "smap_put k v m \<equiv> AList.update k v m"

lemma smap_put_nonempty [simp]: "smap_put k v m \<noteq> []"
  by (cases m) auto

lemma length_smap_put: "length (smap_put k v m) \<le> Suc (length m)"
  by (induction m) auto

lemma length_smap_foldl:
  "length (foldl (\<lambda>m (k, v). smap_put k v m) m kvs) \<le> length m + length kvs"
proof (induction kvs arbitrary: m)
  case Nil
  then show ?case by simp
next
  case (Cons kv kvs)
  obtain k v where "kv = (k, v)" by (cases kv)
  then show ?case
    using Cons [of "smap_put k v m"] length_smap_put [of k v m] by simp
qed

lemma smap_get_put: "smap_get (smap_put k v m) = (smap_get m)(k \<mapsto> v)"
  by (rule update_conv')

lemma smap_get_foldl_put:
  "smap_get (foldl (\<lambda>m (k, v). smap_put k v m) m kvs) = smap_get m ++ map_of (rev kvs)"
proof (induction kvs arbitrary: m)
  case Nil
  then show ?case by simp
next
  case (Cons kv kvs)
  then show ?case
    by (cases kv) (auto simp: smap_get_put map_add_def fun_eq_iff split: option.splits)
qed

section \<open>Escape decoders\<close>

text \<open>
  The program undoes two encodings of its clients: percent-encoding (\<^verbatim>\<open>parseqs::unquote\<close>)
  and quoted strings (\<^verbatim>\<open>std::quoted\<close> in the multipart header parser). What the rest of the
  program relies on is the same for both: decoding recovers what a client encoded.
\<close>

locale codec =
  fixes enc :: "string \<Rightarrow> string"
    and dec :: "string \<Rightarrow> string"
  assumes dec_enc: "dec (enc s) = s"
begin

lemma enc_inject: "enc s = enc t \<longleftrightarrow> s = t"
  by (metis dec_enc)

lemma dec_surj: "\<exists>t. dec t = s"
  using dec_enc by blast

lemma map_dec_enc: "map dec (map enc ss) = ss"
  by (simp add: dec_enc o_def)

end

text \<open>A run whose steps all decrease a measure is no longer than the measure.\<close>

lemma relpowp_measure:
  assumes "(R ^^ k) c c'" and "P c" and "\<And>c c'. P c \<Longrightarrow> R c c' \<Longrightarrow> P c' \<and> f c' < (f c :: nat)"
  shows "P c' \<and> k + f c' \<le> f c"
  using assms(1)
proof (induction k arbitrary: c')
  case 0
  then show ?case using assms(2) by simp
next
  case (Suc k)
  then obtain d where "(R ^^ k) c d" "R d c'" by auto
  with Suc.IH assms(3) [of d c'] show ?case by fastforce
qed

text \<open>
  A codec whose encoded fields do not contain a separator: a list of fields can be put on the
  wire with the separator between them and taken apart again.
\<close>

fun split_on :: "char \<Rightarrow> string \<Rightarrow> string list" where
  "split_on c [] = [[]]"
| "split_on c (x # xs) =
     (if x = c then [] # split_on c xs
      else (case split_on c xs of [] \<Rightarrow> [[x]] | t # ts \<Rightarrow> (x # t) # ts))"

lemma split_on_nonempty [simp]: "split_on c s \<noteq> []"
  by (induction s) (auto split: list.splits)

lemma split_on_sep_free: "t \<in> set (split_on c s) \<Longrightarrow> c \<notin> set t"
  by (induction s arbitrary: t) (auto split: list.splits if_splits)

lemma intercalate_split_on: "intercalate [c] (split_on c s) = s"
proof (induction s)
  case Nil
  then show ?case by simp
next
  case (Cons x xs)
  then show ?case
    by (cases "split_on c xs") (auto simp: intercalate_Cons split: if_splits)
qed

lemma length_split_on: "length (split_on c s) = Suc (count_list s c)"
  by (induction s) (auto split: list.splits)

lemma split_on_free: "c \<notin> set s \<Longrightarrow> split_on c s = [s]"
  by (induction s) auto

lemma split_on_append:
  "c \<notin> set u \<Longrightarrow> split_on c (u @ c # v) = u # split_on c v"
  by (induction u) auto

lemma split_on_intercalate:
  assumes "ts \<noteq> []" and "\<forall>t\<in>set ts. c \<notin> set t"
  shows "split_on c (intercalate [c] ts) = ts"
  using assms
proof (induction ts)
  case Nil
  then show ?case by simp
next
  case (Cons t ts)
  then show ?case
    by (cases ts) (auto simp: split_on_free split_on_append)
qed

locale field_codec = codec +
  fixes sep :: char
  assumes enc_sep_free: "sep \<notin> set (enc s)"
begin

lemma decode_fields:
  assumes "ss \<noteq> []"
  shows "map dec (split_on sep (intercalate [sep] (map enc ss))) = ss"
proof -
  have "split_on sep (intercalate [sep] (map enc ss)) = map enc ss"
    using assms by (intro split_on_intercalate) (auto simp: enc_sep_free)
  then show ?thesis by (simp only: map_dec_enc)
qed

end

end
