(* ===== verification/Mime.thy ===== *)
theory Mime
  imports Prelude
begin

text \<open>
  \<^verbatim>\<open>src/mime.cpp\<close> and \<^verbatim>\<open>include/mime.hpp\<close>: the class
  \<^verbatim>\<open>MimeTypeMap\<close>, its constructor that reads the table from a file (the file system is a
  parameter), and its two lookups. The interface \<open>type_lookup\<close> is what \<^verbatim>\<open>pathutil\<close>
  relies on: the type of the longest registered extension, the default otherwise.
\<close>

section \<open>The code\<close>

record mime_map =
  mimetypes :: "string smap"
  mimetypes_file :: string
  default_mimetype :: string

text \<open>What opening and reading a file gives: not opened, or its bytes and \<^verbatim>\<open>bad()\<close>.\<close>

datatype file_result = CannotOpen | FileData string bool

text \<open>The lines that \<^verbatim>\<open>std::getline\<close> yields: an empty last field is not a line.\<close>

definition getlines :: "string \<Rightarrow> string list" where
  "getlines s =
     (let ls = split_on CHR 0x0A s in if last ls = [] then butlast ls else ls)"

text \<open>\<^verbatim>\<open>ss >> word\<close>: the word and what is left of the stream.\<close>

definition extract_word :: "string \<Rightarrow> string \<times> string" where
  "extract_word s =
     (let r = dropWhile is_space s
      in (takeWhile (\<lambda>c. \<not> is_space c) r, dropWhile (\<lambda>c. \<not> is_space c) r))"

definition parse_mime_line :: "string \<Rightarrow> string \<times> string" where
  "parse_mime_line line =
     (let (ext, ss) = extract_word line; (type, _) = extract_word ss in (ext, type))"

definition read_mimetypes :: "string list \<Rightarrow> string smap" where
  "read_mimetypes lines =
     foldl (\<lambda>m line. let (ext, type) = parse_mime_line line in smap_put ext type m) [] lines"

definition MimeTypeMap :: "(string \<Rightarrow> file_result) \<Rightarrow> string \<Rightarrow> string \<Rightarrow> mime_map res" where
  "MimeTypeMap fs file dflt =
     (case fs (cstr file) of
        CannotOpen \<Rightarrow> Exn SystemError
      | FileData contents bad \<Rightarrow>
          let m = read_mimetypes (getlines contents)
          in if bad then Exn SystemError
             else Ok \<lparr>mimetypes = m, mimetypes_file = file, default_mimetype = dflt\<rparr>)"

text \<open>The one-argument and the default constructor of the header.\<close>

definition octet_stream :: string where
  "octet_stream = ''application/octet-stream''"

definition MimeTypeMap_file :: "(string \<Rightarrow> file_result) \<Rightarrow> string \<Rightarrow> mime_map res" where
  "MimeTypeMap_file fs file = MimeTypeMap fs file octet_stream"

definition MimeTypeMap_default :: "(string \<Rightarrow> file_result) \<Rightarrow> mime_map res" where
  "MimeTypeMap_default fs = MimeTypeMap fs ''mimetypes.txt'' octet_stream"

function find_extension :: "mime_map \<Rightarrow> string \<Rightarrow> string" where
  "find_extension m extension =
     (case find_char CHR ''.'' extension of
        None \<Rightarrow> default_mimetype m
      | Some pos \<Rightarrow>
          let extension' = drop (pos + 1) extension
          in case smap_get (mimetypes m) extension' of
               Some type \<Rightarrow> type
             | None \<Rightarrow> find_extension m extension')"
  by pat_completeness auto
termination
  by (relation "measure (\<lambda>(m, e). length e)") (auto simp: find_char_Some)

declare find_extension.simps [simp del]

definition find_filename :: "mime_map \<Rightarrow> string \<Rightarrow> string" where
  "find_filename m filename =
     (case find_char CHR ''.'' filename of
        None \<Rightarrow> default_mimetype m
      | Some pos \<Rightarrow> find_extension m (drop pos filename))"

section \<open>Lookup by the longest registered extension\<close>

text \<open>Everything that follows a dot, the longest first.\<close>

fun dot_suffixes :: "string \<Rightarrow> string list" where
  "dot_suffixes [] = []"
| "dot_suffixes (c # s) = (if c = CHR ''.'' then s # dot_suffixes s else dot_suffixes s)"

fun first_known :: "'v smap \<Rightarrow> 'v \<Rightarrow> string list \<Rightarrow> 'v" where
  "first_known m d [] = d"
| "first_known m d (x # xs) = (case smap_get m x of Some t \<Rightarrow> t | None \<Rightarrow> first_known m d xs)"

lemma dot_suffixes_append:
  "CHR ''.'' \<notin> set u \<Longrightarrow> dot_suffixes (u @ s) = dot_suffixes s"
  by (induction u) auto

lemma dot_suffixes_none: "CHR ''.'' \<notin> set s \<Longrightarrow> dot_suffixes s = []"
  by (induction s) auto

lemma dot_suffixes_found:
  assumes "find_char CHR ''.'' s = Some n"
  shows "dot_suffixes s = drop (Suc n) s # dot_suffixes (drop (Suc n) s)"
proof -
  have "dot_suffixes s = dot_suffixes (take n s @ CHR ''.'' # drop (Suc n) s)"
    using find_char_split [OF assms] by simp
  also have "\<dots> = dot_suffixes (CHR ''.'' # drop (Suc n) s)"
    using assms by (intro dot_suffixes_append) (simp add: find_char_Some)
  finally show ?thesis by simp
qed

lemma find_extension_eq:
  "find_extension m e = first_known (mimetypes m) (default_mimetype m) (dot_suffixes e)"
proof (induction m e rule: find_extension.induct)
  case (1 m e)
  show ?case
  proof (cases "find_char CHR ''.'' e")
    case None
    then show ?thesis
      by (subst find_extension.simps) (auto simp: dot_suffixes_none dest: find_char_None [THEN iffD1])
  next
    case (Some pos)
    then show ?thesis
      using 1 [OF Some refl]
      by (subst find_extension.simps) (simp add: dot_suffixes_found split: option.splits)
  qed
qed

lemma find_filename_eq:
  "find_filename m f = first_known (mimetypes m) (default_mimetype m) (dot_suffixes f)"
proof (cases "find_char CHR ''.'' f")
  case None
  then show ?thesis
    by (auto simp: find_filename_def dot_suffixes_none dest: find_char_None [THEN iffD1])
next
  case (Some pos)
  then have "f = take pos f @ drop pos f" and "CHR ''.'' \<notin> set (take pos f)"
    by (auto simp: find_char_Some)
  then have "dot_suffixes f = dot_suffixes (drop pos f)"
    by (metis dot_suffixes_append)
  with Some show ?thesis by (simp add: find_filename_def find_extension_eq)
qed

lemma set_dot_suffixes: "x \<in> set (dot_suffixes f) \<longleftrightarrow> (\<exists>u. f = u @ CHR ''.'' # x)"
proof (induction f)
  case Nil
  then show ?case by simp
next
  case (Cons c f)
  show ?case
  proof
    assume "x \<in> set (dot_suffixes (c # f))"
    then consider "c = CHR ''.''" "x = f" | "x \<in> set (dot_suffixes f)"
      by (auto split: if_splits)
    then show "\<exists>u. c # f = u @ CHR ''.'' # x"
      by cases (use Cons in \<open>auto intro: exI [of _ "[]"] exI [of _ "c # _"]\<close>)
  next
    assume "\<exists>u. c # f = u @ CHR ''.'' # x"
    then show "x \<in> set (dot_suffixes (c # f))"
      using Cons by (auto simp: Cons_eq_append_conv)
  qed
qed

lemma dot_suffixes_shorter: "x \<in> set (dot_suffixes f) \<Longrightarrow> length x < length f"
  by (auto simp: set_dot_suffixes)

lemma first_known_none: "\<forall>y\<in>set xs. smap_get m y = None \<Longrightarrow> first_known m d xs = d"
  by (induction xs) auto

lemma sorted_dot_suffixes: "sorted_wrt (\<lambda>x y. length x > length y) (dot_suffixes f)"
  by (induction f) (auto dest: dot_suffixes_shorter)

lemma first_known_longest:
  assumes "x \<in> set xs" and "smap_get m x = Some t"
    and "sorted_wrt (\<lambda>x y. length x > length y) xs"
    and "\<forall>y\<in>set xs. smap_get m y \<noteq> None \<longrightarrow> length y \<le> length x"
  shows "first_known m d xs = t"
  using assms
proof (induction xs)
  case Nil
  then show ?case by simp
next
  case (Cons y ys)
  show ?case
  proof (cases "x = y")
    case True
    with Cons.prems show ?thesis by simp
  next
    case False
    with Cons.prems have "x \<in> set ys" and "length x < length y" by auto
    with Cons.prems have "smap_get m y = None" by force
    with Cons \<open>x \<in> set ys\<close> show ?thesis by simp
  qed
qed

section \<open>The interface\<close>

locale type_lookup =
  fixes find_type :: "'m \<Rightarrow> string \<Rightarrow> string"
    and table :: "'m \<Rightarrow> string \<Rightarrow> string option"
    and dflt :: "'m \<Rightarrow> string"
  assumes longest: "f = u @ CHR ''.'' # x \<Longrightarrow> table m x = Some t \<Longrightarrow>
      (\<And>u' x'. f = u' @ CHR ''.'' # x' \<Longrightarrow> table m x' \<noteq> None \<Longrightarrow> length x' \<le> length x) \<Longrightarrow>
      find_type m f = t"
    and unknown: "(\<And>u x. f = u @ CHR ''.'' # x \<Longrightarrow> table m x = None) \<Longrightarrow> find_type m f = dflt m"
begin

lemma single_extension:
  assumes "CHR ''.'' \<notin> set u" and "CHR ''.'' \<notin> set x"
  shows "find_type m (u @ CHR ''.'' # x) = (case table m x of Some t \<Rightarrow> t | None \<Rightarrow> dflt m)"
proof -
  have only: "x' = x" if "u @ CHR ''.'' # x = u' @ CHR ''.'' # x'" for u' x'
    using that assms by (auto simp: append_eq_append_conv2 append_eq_Cons_conv Cons_eq_append_conv)
  show ?thesis
  proof (cases "table m x")
    case None
    have "find_type m (u @ CHR ''.'' # x) = dflt m"
      by (rule unknown) (use None only in blast)
    with None show ?thesis by simp
  next
    case (Some t)
    have "find_type m (u @ CHR ''.'' # x) = t"
      by (rule longest [OF refl Some]) (use only in blast)
    with Some show ?thesis by simp
  qed
qed

lemma no_extension: "CHR ''.'' \<notin> set f \<Longrightarrow> find_type m f = dflt m"
  by (rule unknown) auto

end

interpretation mime: type_lookup find_filename "\<lambda>m. smap_get (mimetypes m)" default_mimetype
proof unfold_locales
  fix f u :: string and x :: string and m :: mime_map and t :: string
  assume f: "f = u @ CHR ''.'' # x" and t: "smap_get (mimetypes m) x = Some t"
    and l: "\<And>u' x'. f = u' @ CHR ''.'' # x' \<Longrightarrow> smap_get (mimetypes m) x' \<noteq> None \<Longrightarrow>
              length x' \<le> length x"
  have "x \<in> set (dot_suffixes f)"
    using f by (auto simp: set_dot_suffixes)
  moreover have "\<forall>y\<in>set (dot_suffixes f). smap_get (mimetypes m) y \<noteq> None \<longrightarrow> length y \<le> length x"
    using l by (auto simp: set_dot_suffixes)
  ultimately show "find_filename m f = t"
    using t unfolding find_filename_eq by (intro first_known_longest sorted_dot_suffixes)
next
  fix f :: string and m :: mime_map
  assume n: "\<And>u x. f = u @ CHR ''.'' # x \<Longrightarrow> smap_get (mimetypes m) x = None"
  have "\<forall>y\<in>set (dot_suffixes f). smap_get (mimetypes m) y = None"
    using n by (auto simp: set_dot_suffixes)
  then show "find_filename m f = default_mimetype m"
    unfolding find_filename_eq by (rule first_known_none)
qed

section \<open>Reading the table\<close>

definition mime_line :: "string \<times> string \<Rightarrow> string" where
  "mime_line et = fst et @ [CHR 0x09] @ snd et"

definition mime_file :: "(string \<times> string) list \<Rightarrow> string" where
  "mime_file ets = concat (map (\<lambda>et. mime_line et @ [CHR 0x0A]) ets)"

definition is_word :: "string \<Rightarrow> bool" where
  "is_word w \<longleftrightarrow> w \<noteq> [] \<and> (\<forall>c\<in>set w. \<not> is_space c)"

lemma extract_word_word:
  assumes "is_word w" and "s = [] \<or> is_space (hd s)"
  shows "extract_word (w @ s) = (w, s)"
proof -
  have "dropWhile is_space (w @ s) = w @ s"
    using assms(1) by (cases w) (auto simp: is_word_def)
  moreover have "takeWhile (\<lambda>c. \<not> is_space c) (w @ s) = w"
    and "dropWhile (\<lambda>c. \<not> is_space c) (w @ s) = s"
    using assms by (cases s; auto simp: is_word_def takeWhile_append dropWhile_append)+
  ultimately show ?thesis by (simp add: extract_word_def)
qed

lemma extract_word_space: "is_space c \<Longrightarrow> extract_word (c # s) = extract_word s"
  by (simp add: extract_word_def)

lemma parse_mime_line_line:
  assumes "is_word (fst et)" and "is_word (snd et)"
  shows "parse_mime_line (mime_line et) = et"
proof -
  have "extract_word (mime_line et) = (fst et, CHR 0x09 # snd et)"
    unfolding mime_line_def using assms(1) by (simp add: extract_word_word is_space_def)
  moreover have "extract_word (CHR 0x09 # snd et) = (snd et, [])"
    using extract_word_word [OF assms(2), of "[]"] by (simp add: extract_word_space is_space_def)
  ultimately show ?thesis by (simp add: parse_mime_line_def)
qed

lemma word_no_newline: "is_word w \<Longrightarrow> CHR 0x0A \<notin> set w"
  by (auto simp: is_word_def is_space_def)

lemma mime_line_no_newline:
  "is_word (fst et) \<Longrightarrow> is_word (snd et) \<Longrightarrow> CHR 0x0A \<notin> set (mime_line et)"
  by (auto simp: mime_line_def dest: word_no_newline)

lemma split_mime_file:
  "\<forall>et\<in>set ets. is_word (fst et) \<and> is_word (snd et) \<Longrightarrow>
   split_on CHR 0x0A (mime_file ets) = map mime_line ets @ [[]]"
  by (induction ets) (auto simp: mime_file_def split_on_append mime_line_no_newline)

lemma getlines_mime_file:
  "\<forall>et\<in>set ets. is_word (fst et) \<and> is_word (snd et) \<Longrightarrow>
   getlines (mime_file ets) = map mime_line ets"
  by (simp add: getlines_def split_mime_file)

lemma read_mimetypes_lines:
  assumes "\<forall>et\<in>set ets. is_word (fst et) \<and> is_word (snd et)"
  shows "read_mimetypes (map mime_line ets) = foldl (\<lambda>m (k, v). smap_put k v m) [] ets"
proof -
  have "foldl (\<lambda>m line. let (ext, type) = parse_mime_line line in smap_put ext type m) m
          (map mime_line ets) = foldl (\<lambda>m (k, v). smap_put k v m) m ets" for m
    using assms
    by (induction ets arbitrary: m) (auto simp: parse_mime_line_line)
  then show ?thesis by (simp add: read_mimetypes_def)
qed

section \<open>Properties\<close>

text \<open>
  C38: \<open>find_filename\<close> answers with the type of the longest extension of the file name (a
  suffix after one of its dots) that the table has, so \<^verbatim>\<open>a.tar.gz\<close> is looked up as
  \<^verbatim>\<open>tar.gz\<close> before \<^verbatim>\<open>gz\<close>.
\<close>

theorem find_filename_longest:
  assumes "f = u @ CHR ''.'' # x" and "smap_get (mimetypes m) x = Some t"
    and "\<And>u' x'. f = u' @ CHR ''.'' # x' \<Longrightarrow> smap_get (mimetypes m) x' \<noteq> None \<Longrightarrow>
           length x' \<le> length x"
  shows "find_filename m f = t"
  using assms by (rule mime.longest)

definition sample_map :: mime_map where
  "sample_map = \<lparr>mimetypes = [(''gz'', ''application/x-gzip''), (''tar.gz'', ''application/x-tgz'')],
     mimetypes_file = ''mimetypes.txt'', default_mimetype = octet_stream\<rparr>"

theorem find_filename_longest_witness:
  "find_filename sample_map ''a.tar.gz'' = ''application/x-tgz''"
proof (rule find_filename_longest [of _ "''a''" "''tar.gz''"])
  fix u' x'
  assume "''a.tar.gz'' = u' @ CHR ''.'' # x'"
  then have "x' \<in> set (dot_suffixes ''a.tar.gz'')"
    by (auto simp: set_dot_suffixes)
  then show "length x' \<le> length ''tar.gz''" by auto
qed (simp_all add: sample_map_def)

text \<open>
  A file name none of whose extensions is in the table gets the default type.
\<close>

theorem find_filename_unknown:
  assumes "\<And>u x. f = u @ CHR ''.'' # x \<Longrightarrow> smap_get (mimetypes m) x = None"
  shows "find_filename m f = default_mimetype m"
  using assms by (rule mime.unknown)

theorem find_filename_unknown_witness: "find_filename sample_map ''/README'' = octet_stream"
proof -
  have "find_filename sample_map ''/README'' = default_mimetype sample_map"
  proof (rule find_filename_unknown)
    fix u x :: string
    assume "''/README'' = u @ CHR ''.'' # x"
    then have "CHR ''.'' \<in> set ''/README''" by (metis in_set_conv_decomp)
    then show "smap_get (mimetypes sample_map) x = None" by simp
  qed
  then show ?thesis by (simp add: sample_map_def)
qed

text \<open>
  C39: The constructor reads back a table file: for lines of an extension, a tab and a type
  (words without spaces) the map it builds has exactly these entries, a later line replacing
  an earlier one for the same extension; a file that cannot be opened throws.
\<close>

theorem MimeTypeMap_reads_table:
  assumes "\<forall>et\<in>set ets. is_word (fst et) \<and> is_word (snd et)"
    and "fs (cstr file) = FileData (mime_file ets) False"
  shows "\<exists>m. MimeTypeMap fs file d = Ok m \<and> smap_get (mimetypes m) = map_of (rev ets) \<and>
             default_mimetype m = d"
  using assms
  by (simp add: MimeTypeMap_def getlines_mime_file read_mimetypes_lines smap_get_foldl_put)

theorem MimeTypeMap_reads_table_witness:
  "\<exists>m. MimeTypeMap (\<lambda>_. FileData (mime_file [(''png'', ''image/png'')]) False) ''mimetypes.txt'' octet_stream
         = Ok m \<and> smap_get (mimetypes m) = map_of (rev [(''png'', ''image/png'')]) \<and>
       default_mimetype m = octet_stream"
  by (rule MimeTypeMap_reads_table) (simp_all add: is_word_def is_space_def)

end
