(* ===== verification/Path.thy ===== *)
theory Path
  imports Mime
begin

text \<open>
  \<^verbatim>\<open>src/path.cpp\<close>: the path of a request below the document root, and the type of a
  file. \<open>resolve\<close> is the lexical resolution of a path (empty and \<^verbatim>\<open>.\<close> components
  dropped, \<^verbatim>\<open>..\<close> taking its parent away), against which \<open>path_cat\<close> is shown not to leave
  the root for the targets that \<^verbatim>\<open>handle_request\<close> lets through.
\<close>

section \<open>The code\<close>

text \<open>
  \<^verbatim>\<open>filename.data()\<close> is read as a C string; the views passed in end at the terminator of
  a \<^verbatim>\<open>std::string\<close>, so the read stops at the first NUL of the view or at its end.
\<close>

definition get_mime_type :: "string \<Rightarrow> mime_map \<Rightarrow> string" where
  "get_mime_type path mtm =
     (let filename =
        (case rfind_char CHR ''/'' path of
           None \<Rightarrow> path
         | Some pos \<Rightarrow> drop pos path)
      in find_filename mtm (cstr filename))"

definition path_cat :: "string \<Rightarrow> string \<Rightarrow> string" where
  "path_cat base path =
     (if base = [] then path
      else (let result = (if last base = CHR ''/'' then butlast base else base)
            in result @ path))"

section \<open>Lexical resolution\<close>

fun resolve_step :: "string list \<Rightarrow> string \<Rightarrow> string list" where
  "resolve_step stack c =
     (if c = [] \<or> c = ''.'' then stack
      else if c = ''..'' then (if stack = [] \<or> last stack = ''..'' then stack @ [c] else butlast stack)
      else stack @ [c])"

definition resolve :: "string \<Rightarrow> string list" where
  "resolve path = foldl resolve_step [] (split_on CHR ''/'' path)"

lemma split_on_concat: "split_on c (u @ c # v) = split_on c u @ split_on c v"
proof (induction u)
  case Nil
  then show ?case by simp
next
  case (Cons x u)
  then show ?case
    by (cases "split_on c u") auto
qed

lemma split_on_substr: "t \<in> set (split_on c s) \<Longrightarrow> \<exists>u v. s = u @ t @ v"
proof (induction s arbitrary: t)
  case Nil
  then show ?case by simp
next
  case (Cons x s)
  obtain w ws where w: "split_on c s = w # ws"
    by (cases "split_on c s") auto
  have wpre: "\<exists>v. s = w @ v"
    using intercalate_split_on [of c s] w by (auto simp: intercalate_Cons split: if_splits)
  have IH: "\<exists>u v. x # s = u @ t' @ v" if "t' \<in> set (split_on c s)" for t'
    using Cons.IH [OF that] by (metis append_Cons)
  show ?case
  proof (cases "t \<in> set (split_on c s)")
    case True
    then show ?thesis by (rule IH)
  next
    case False
    then have "t = [] \<or> t = x # w"
      using Cons.prems w by (auto split: if_splits)
    then show ?thesis using wpre by (metis append_Cons append_Nil)
  qed
qed

lemma resolve_descends:
  "''..'' \<notin> set cs \<Longrightarrow> \<exists>ext. foldl resolve_step stack cs = stack @ ext \<and> set ext \<subseteq> set cs"
proof (induction cs arbitrary: stack)
  case Nil
  then show ?case by simp
next
  case (Cons c cs)
  then show ?case
  proof (cases "c = [] \<or> c = ''.''")
    case True
    with Cons show ?thesis by (auto dest!: Cons.IH)
  next
    case False
    with Cons.prems Cons.IH [of "stack @ [c]"] show ?thesis by auto
  qed
qed

lemma resolve_trailing_slash: "resolve (base @ ''/'') = resolve base"
  using split_on_concat [of "CHR ''/''" base "[]"] by (simp add: resolve_def)

lemma resolve_strip:
  assumes "base \<noteq> []"
  shows "resolve (if last base = CHR ''/'' then butlast base else base) = resolve base"
  using assms resolve_trailing_slash [of "butlast base"]
  by (metis append_butlast_last_id)

lemma resolve_path_cat:
  assumes "\<not> has_substr target ''..''" and "starts_with target ''/''"
  shows "\<exists>ext. resolve (path_cat base target) = resolve base @ ext \<and> ''..'' \<notin> set ext"
proof -
  obtain t where t: "target = CHR ''/'' # t"
    using assms(2) by (auto simp: starts_with_iff)
  have dots: "''..'' \<notin> set (split_on CHR ''/'' target)"
    using assms(1) split_on_substr by (force simp: has_substr_iff)
  then have dots_t: "''..'' \<notin> set (split_on CHR ''/'' t)"
    by (simp add: t)
  have below: "\<exists>ext. resolve (b @ target) = resolve b @ ext \<and> ''..'' \<notin> set ext" for b
    using resolve_descends [OF dots_t, of "resolve b"] dots_t
    by (auto simp: resolve_def t split_on_concat)
  show ?thesis
  proof (cases "base = []")
    case True
    then show ?thesis using below [of "[]"] by (simp add: path_cat_def)
  next
    case False
    show ?thesis
      using below [of "if last base = CHR ''/'' then butlast base else base"] resolve_strip [OF False] False
      by (simp add: path_cat_def Let_def)
  qed
qed

section \<open>Properties\<close>

text \<open>
  C37: No request escapes the document root: for a target that starts with a slash and does
  not contain \<^verbatim>\<open>..\<close> (what \<^verbatim>\<open>handle_request\<close> checks) the path \<open>path_cat\<close> builds
  resolves to the root's own components followed by components below it.
\<close>

theorem path_cat_stays_below_root:
  assumes "\<not> has_substr target ''..''" and "starts_with target ''/''"
  shows "\<exists>ext. resolve (path_cat base target) = resolve base @ ext \<and> ''..'' \<notin> set ext"
  using assms by (rule resolve_path_cat)

theorem path_cat_stays_below_root_witness:
  "\<exists>ext. resolve (path_cat ''/srv/www/'' ''/assets/a.css'') = resolve ''/srv/www/'' @ ext \<and>
         ''..'' \<notin> set ext"
  by (rule path_cat_stays_below_root) simp_all

text \<open>
  The type of a path depends on its last component only: for a file
  \<^verbatim>\<open>dir/stem.ext\<close> with one dot in its name it is the table's entry for \<^verbatim>\<open>ext\<close>, or the
  default, whatever dots the directories have.
\<close>

theorem get_mime_type_last_component:
  assumes "CHR ''/'' \<notin> set stem" and "CHR ''.'' \<notin> set stem" and "NUL \<notin> set stem"
    and "CHR ''/'' \<notin> set x" and "CHR ''.'' \<notin> set x" and "NUL \<notin> set x"
  shows "get_mime_type (dir @ ''/'' @ stem @ ''.'' @ x) mtm =
         (case smap_get (mimetypes mtm) x of Some t \<Rightarrow> t | None \<Rightarrow> default_mimetype mtm)"
proof -
  let ?p = "dir @ ''/'' @ stem @ ''.'' @ x"
  have "rfind_char CHR ''/'' ?p = Some (length dir)"
    using assms by (simp add: rfind_char_Some nth_append)
  moreover have "cstr (drop (length dir) ?p) = (CHR ''/'' # stem) @ CHR ''.'' # x"
    using assms by (simp add: cstr_id NUL_def)
  ultimately have "get_mime_type ?p mtm = find_filename mtm ((CHR ''/'' # stem) @ CHR ''.'' # x)"
    by (simp only: get_mime_type_def option.case Let_def)
  also have "\<dots> = (case smap_get (mimetypes mtm) x of Some t \<Rightarrow> t | None \<Rightarrow> default_mimetype mtm)"
    using assms by (intro mime.single_extension) auto
  finally show ?thesis .
qed

theorem get_mime_type_last_component_witness:
  "get_mime_type (''/srv/www.d'' @ ''/'' @ ''x'' @ ''.'' @ ''gz'') sample_map =
   (case smap_get (mimetypes sample_map) ''gz'' of
      Some t \<Rightarrow> t | None \<Rightarrow> default_mimetype sample_map)"
  by (rule get_mime_type_last_component) (simp_all add: NUL_def)

end
