(* ===== verification/Server_State.thy ===== *)
theory Server_State
  imports Mime "HOL-Library.Word"
begin

text \<open>
  \<^verbatim>\<open>src/server_state.cpp\<close>: the configuration every connection shares. The TOML library is
  not part of the repository; a table is what the program asks of it, the typed value at a pair
  of keys (\<^verbatim>\<open>tbl["a"]["b"].value<T>()\<close>), absent or of another type being \<open>None\<close>.
\<close>

record toml_table =
  toml_u32 :: "string \<Rightarrow> string \<Rightarrow> 32 word option"
  toml_u16 :: "string \<Rightarrow> string \<Rightarrow> 16 word option"
  toml_str :: "string \<Rightarrow> string \<Rightarrow> string option"
  toml_bool :: "string \<Rightarrow> string \<Rightarrow> bool option"

record server_state =
  tbl :: toml_table
  mtm :: mime_map

definition ServerState :: "toml_table \<Rightarrow> mime_map \<Rightarrow> server_state" where
  "ServerState t m = \<lparr>tbl = t, mtm = m\<rparr>"

definition get_config_table :: "server_state \<Rightarrow> toml_table" where
  "get_config_table s = tbl s"

definition get_mime_type_map :: "server_state \<Rightarrow> mime_map" where
  "get_mime_type_map s = mtm s"

definition get_config_threads :: "server_state \<Rightarrow> 32 word" where
  "get_config_threads s = (case toml_u32 (tbl s) ''config'' ''threads'' of None \<Rightarrow> 2 | Some v \<Rightarrow> v)"

definition get_config_address :: "server_state \<Rightarrow> string" where
  "get_config_address s = (case toml_str (tbl s) ''listen'' ''ip'' of None \<Rightarrow> ''0.0.0.0'' | Some v \<Rightarrow> v)"

definition get_config_port :: "server_state \<Rightarrow> 16 word" where
  "get_config_port s = (case toml_u16 (tbl s) ''listen'' ''port'' of None \<Rightarrow> 8080 | Some v \<Rightarrow> v)"

definition get_config_port2 :: "server_state \<Rightarrow> 16 word" where
  "get_config_port2 s = (case toml_u16 (tbl s) ''listen'' ''port2'' of None \<Rightarrow> 0 | Some v \<Rightarrow> v)"

definition get_config_doc_root :: "server_state \<Rightarrow> string" where
  "get_config_doc_root s = (case toml_str (tbl s) ''config'' ''docroot'' of None \<Rightarrow> ''.'' | Some v \<Rightarrow> v)"

definition get_config_hostname :: "server_state \<Rightarrow> string" where
  "get_config_hostname s = (case toml_str (tbl s) ''config'' ''hostname'' of None \<Rightarrow> ''z6a.info'' | Some v \<Rightarrow> v)"

definition get_config_log_level :: "server_state \<Rightarrow> string" where
  "get_config_log_level s = (case toml_str (tbl s) ''config'' ''loglevel'' of None \<Rightarrow> ''info'' | Some v \<Rightarrow> v)"

definition get_config_daemon :: "server_state \<Rightarrow> bool" where
  "get_config_daemon s = (case toml_bool (tbl s) ''config'' ''daemon'' of None \<Rightarrow> False | Some v \<Rightarrow> v)"

definition get_config_cert_file :: "server_state \<Rightarrow> string" where
  "get_config_cert_file s = (case toml_str (tbl s) ''config'' ''certfile'' of None \<Rightarrow> ''cert.pem'' | Some v \<Rightarrow> v)"

definition get_config_key_file :: "server_state \<Rightarrow> string" where
  "get_config_key_file s = (case toml_str (tbl s) ''config'' ''keyfile'' of None \<Rightarrow> ''key.pem'' | Some v \<Rightarrow> v)"

definition get_config_dh_file :: "server_state \<Rightarrow> string" where
  "get_config_dh_file s = (case toml_str (tbl s) ''config'' ''dhfile'' of None \<Rightarrow> ''dh.pem'' | Some v \<Rightarrow> v)"

definition get_config_user :: "server_state \<Rightarrow> string" where
  "get_config_user s = (case toml_str (tbl s) ''config'' ''user'' of None \<Rightarrow> [] | Some v \<Rightarrow> v)"

definition get_config_group :: "server_state \<Rightarrow> string" where
  "get_config_group s = (case toml_str (tbl s) ''config'' ''group'' of None \<Rightarrow> [] | Some v \<Rightarrow> v)"

definition get_config_db_path :: "server_state \<Rightarrow> string" where
  "get_config_db_path s = (case toml_str (tbl s) ''config'' ''dbpath'' of None \<Rightarrow> ''urls.db'' | Some v \<Rightarrow> v)"

lemmas config_defs = get_config_threads_def get_config_address_def get_config_port_def
  get_config_port2_def get_config_doc_root_def get_config_hostname_def get_config_log_level_def
  get_config_daemon_def get_config_cert_file_def get_config_key_file_def get_config_dh_file_def
  get_config_user_def get_config_group_def get_config_db_path_def

text \<open>A table with nothing in it: every getter answers with its default.\<close>

definition empty_toml :: toml_table where
  "empty_toml = \<lparr>toml_u32 = (\<lambda>_ _. None), toml_u16 = (\<lambda>_ _. None), toml_str = (\<lambda>_ _. None),
                 toml_bool = (\<lambda>_ _. None)\<rparr>"

end
