(* ===== verification/Response.thy ===== *)
theory Response
  imports Path Server_State
begin

text \<open>
  Requests, and the response constructors of \<^verbatim>\<open>include/request.hpp\<close>. Requests and responses
  are Boost.Beast messages; a response is recorded as what the program puts into it: the status,
  the fields set, the argument of \<^verbatim>\<open>keep_alive\<close> if it was called, the body, and whether
  \<^verbatim>\<open>content_length\<close> or \<^verbatim>\<open>prepare_payload\<close> was called. The string
  \<^verbatim>\<open>BOOST_BEAST_VERSION_STRING\<close> is the parameter \<open>ver\<close>.
\<close>

datatype verb = Get | Head | Post | OtherVerb string

record request =
  req_method :: verb
  req_target :: string
  req_version :: nat
  req_keep_alive :: bool
  req_field :: "string \<Rightarrow> string"        \<comment> \<open>\<^verbatim>\<open>req["Name"]\<close>, empty when absent\<close>
  req_body :: string

datatype body = EmptyBody | StringBody string | FileBody string nat

record response =
  res_status :: nat
  res_version :: nat
  res_fields :: "string smap"
  res_keep_alive :: "bool option"
  res_body :: body
  res_content_length :: "nat option"
  res_prepared :: bool

text \<open>The response every constructor starts from: a status, the version, the server field.\<close>

definition start_response :: "string \<Rightarrow> nat \<Rightarrow> request \<Rightarrow> response" where
  "start_response ver st req =
     \<lparr>res_status = st, res_version = req_version req, res_fields = smap_put ''Server'' ver [],
      res_keep_alive = None, res_body = EmptyBody, res_content_length = None, res_prepared = False\<rparr>"

definition set_field :: "string \<Rightarrow> string \<Rightarrow> response \<Rightarrow> response" where
  "set_field n v res = res\<lparr>res_fields := smap_put n v (res_fields res)\<rparr>"

text \<open>An HTML body: the lines that the constructors with a string body have in common.\<close>

definition html_response :: "string \<Rightarrow> nat \<Rightarrow> request \<Rightarrow> string \<Rightarrow> response" where
  "html_response ver st req text =
     (set_field ''Content-Type'' ''text/html'' (start_response ver st req))
       \<lparr>res_keep_alive := Some (req_keep_alive req), res_body := StringBody text, res_prepared := True\<rparr>"

definition bad_request :: "string \<Rightarrow> request \<Rightarrow> string \<Rightarrow> response" where
  "bad_request ver req why = html_response ver 400 req why"

definition not_found :: "string \<Rightarrow> request \<Rightarrow> string \<Rightarrow> response" where
  "not_found ver req target =
     html_response ver 404 req (''The resource '' @ [CHR 0x27] @ target @ [CHR 0x27] @ '' was not found.'')"

definition server_error :: "string \<Rightarrow> request \<Rightarrow> string \<Rightarrow> response" where
  "server_error ver req what =
     html_response ver 500 req (''An error occurred: '' @ [CHR 0x27] @ what @ [CHR 0x27])"

definition redirect_permanent :: "string \<Rightarrow> request \<Rightarrow> string \<Rightarrow> response" where
  "redirect_permanent ver req url =
     (set_field ''Location'' url (start_response ver 301 req))\<lparr>res_prepared := True\<rparr>"

text \<open>The value of a file body: the path it was opened with and its size.\<close>

definition ok_head_file :: "string \<Rightarrow> request \<Rightarrow> string \<Rightarrow> nat \<Rightarrow> server_state \<Rightarrow> response" where
  "ok_head_file ver req path sz state =
     (set_field ''Content-Type'' (get_mime_type path (get_mime_type_map state)) (start_response ver 200 req))
       \<lparr>res_content_length := Some sz, res_keep_alive := Some (req_keep_alive req)\<rparr>"

definition ok_get_file :: "string \<Rightarrow> request \<Rightarrow> string \<Rightarrow> nat \<Rightarrow> server_state \<Rightarrow> response" where
  "ok_get_file ver req path sz state =
     (set_field ''Content-Type'' (get_mime_type path (get_mime_type_map state)) (start_response ver 200 req))
       \<lparr>res_body := FileBody (cstr path) sz, res_content_length := Some sz,
        res_keep_alive := Some (req_keep_alive req)\<rparr>"

definition ok_string :: "string \<Rightarrow> request \<Rightarrow> string \<Rightarrow> response" where
  "ok_string ver req data = html_response ver 200 req data"

definition bad_request_string :: "string \<Rightarrow> request \<Rightarrow> string \<Rightarrow> response" where
  "bad_request_string ver req data = html_response ver 400 req data"

lemmas response_defs = start_response_def set_field_def html_response_def bad_request_def not_found_def
  server_error_def redirect_permanent_def ok_head_file_def ok_get_file_def ok_string_def
  bad_request_string_def

text \<open>
  What every response has: the request's version, the server field, and, unless it is a redirect,
  the request's choice to keep the connection.
\<close>

definition answers :: "string \<Rightarrow> request \<Rightarrow> response \<Rightarrow> bool" where
  "answers ver req r \<longleftrightarrow>
     res_version r = req_version req \<and> smap_get (res_fields r) ''Server'' = Some ver \<and>
     (if res_status r = 301 then res_keep_alive r = None \<and> smap_get (res_fields r) ''Location'' \<noteq> None
      else res_keep_alive r = Some (req_keep_alive req) \<and> smap_get (res_fields r) ''Location'' = None)"

lemma answers_all [simp]:
  "answers ver req (bad_request ver req why)"
  "answers ver req (not_found ver req t)"
  "answers ver req (server_error ver req what)"
  "answers ver req (redirect_permanent ver req url)"
  "answers ver req (ok_head_file ver req path sz state)"
  "answers ver req (ok_get_file ver req path sz state)"
  "answers ver req (ok_string ver req data)"
  by (simp_all add: answers_def response_defs)

lemma status_all [simp]:
  "res_status (bad_request ver req why) = 400"
  "res_status (not_found ver req t) = 404"
  "res_status (server_error ver req what) = 500"
  "res_status (redirect_permanent ver req url) = 301"
  "res_status (ok_head_file ver req path sz state) = 200"
  "res_status (ok_get_file ver req path sz state) = 200"
  "res_status (ok_string ver req data) = 200"
  by (simp_all add: response_defs)

lemma location_redirect [simp]:
  "smap_get (res_fields (redirect_permanent ver req url)) ''Location'' = Some url"
  by (simp add: response_defs)

text \<open>
  What every response of a handler looks like: one of five statuses; a page is HTML with its length
  computed by \<^verbatim>\<open>prepare_payload\<close>; a file, or its head, comes with the length and a type; a
  redirect has a target and no body. So every response has a length, which keep-alive needs. The
  answer to \<^verbatim>\<open>HEAD\<close> has no body if it is a success (an error page has one).
\<close>

definition response_ok :: "verb \<Rightarrow> response \<Rightarrow> bool" where
  "response_ok v r \<longleftrightarrow>
     (case res_body r of
        StringBody t \<Rightarrow> res_status r \<in> {200, 400, 404, 500} \<and> res_prepared r \<and>
          smap_get (res_fields r) ''Content-Type'' = Some ''text/html'' \<and> (v = Head \<longrightarrow> res_status r \<noteq> 200)
      | FileBody p n \<Rightarrow> v = Get \<and> res_status r = 200 \<and> res_content_length r = Some n \<and>
          smap_get (res_fields r) ''Content-Type'' \<noteq> None
      | EmptyBody \<Rightarrow>
          v = Head \<and> res_status r = 200 \<and> res_content_length r \<noteq> None \<and>
            smap_get (res_fields r) ''Content-Type'' \<noteq> None \<or>
          v = Get \<and> res_status r = 301 \<and> res_prepared r \<and> smap_get (res_fields r) ''Location'' \<noteq> None)"

lemma response_ok_all [simp]:
  "response_ok v (bad_request ver req why)"
  "response_ok v (not_found ver req t)"
  "response_ok v (server_error ver req what)"
  "response_ok v (redirect_permanent ver req url) \<longleftrightarrow> v = Get"
  "response_ok v (ok_head_file ver req path sz state) \<longleftrightarrow> v = Head"
  "response_ok v (ok_get_file ver req path sz state) \<longleftrightarrow> v = Get"
  "response_ok v (ok_string ver req data) \<longleftrightarrow> v \<noteq> Head"
  by (simp_all add: response_ok_def response_defs)

end
