(* ===== verification/Regex.thy ===== *)
theory Regex
  imports Prelude
begin

text \<open>
  The fragment of \<^verbatim>\<open>std::regex\<close> (ECMAScript grammar) that the routing table of
  \<^verbatim>\<open>include/request.hpp\<close> is written in, and \<^verbatim>\<open>std::regex_search\<close> on it: \<open>ends\<close>
  computes by backtracking where a match that starts at an index can end, \<open>matches\<close> is the
  relation the grammar defines, and \<open>ends_iff_matches\<close> says they agree. The rest of the theory
  evaluates \<open>matches\<close> on the shapes the table uses.
\<close>

section \<open>Expressions and search\<close>

datatype re =
    Eps
  | Chr char
  | Dot                     \<comment> \<open>\<^verbatim>\<open>.\<close>: any character but a line terminator\<close>
  | NotChr char             \<comment> \<open>\<^verbatim>\<open>[^c]\<close>\<close>
  | Seq re re
  | Alt re re
  | Star re
  | Bol                     \<comment> \<open>\<^verbatim>\<open>^\<close>: the start of the string\<close>
  | Eol                     \<comment> \<open>\<^verbatim>\<open>$\<close>: its end\<close>

definition line_terminator :: "char \<Rightarrow> bool" where
  "line_terminator c = (c = CHR 0x0A \<or> c = CHR 0x0D)"

fun star_ends :: "nat \<Rightarrow> (nat \<Rightarrow> nat list) \<Rightarrow> nat \<Rightarrow> nat list" where
  "star_ends 0 f i = [i]"
| "star_ends (Suc n) f i = i # concat (map (star_ends n f) (filter (\<lambda>j. i < j) (f i)))"

definition one_char :: "(char \<Rightarrow> bool) \<Rightarrow> string \<Rightarrow> nat \<Rightarrow> nat list" where
  "one_char p s i = (if i < length s \<and> p (s ! i) then [Suc i] else [])"

fun ends :: "re \<Rightarrow> string \<Rightarrow> nat \<Rightarrow> nat list" where
  "ends Eps s i = [i]"
| "ends (Chr c) s i = one_char (\<lambda>x. x = c) s i"
| "ends Dot s i = one_char (\<lambda>x. \<not> line_terminator x) s i"
| "ends (NotChr c) s i = one_char (\<lambda>x. x \<noteq> c) s i"
| "ends (Seq r1 r2) s i = concat (map (ends r2 s) (ends r1 s i))"
| "ends (Alt r1 r2) s i = ends r1 s i @ ends r2 s i"
| "ends (Star r) s i = star_ends (length s) (ends r s) i"
| "ends Bol s i = (if i = 0 then [i] else [])"
| "ends Eol s i = (if i = length s then [i] else [])"

definition regex_search :: "string \<Rightarrow> re \<Rightarrow> bool" where
  "regex_search s r = list_ex (\<lambda>i. ends r s i \<noteq> []) [0..<Suc (length s)]"

section \<open>What the grammar says\<close>

inductive matches :: "re \<Rightarrow> string \<Rightarrow> nat \<Rightarrow> nat \<Rightarrow> bool" where
  m_eps: "i \<le> length s \<Longrightarrow> matches Eps s i i"
| m_chr: "i < length s \<Longrightarrow> s ! i = c \<Longrightarrow> matches (Chr c) s i (Suc i)"
| m_dot: "i < length s \<Longrightarrow> \<not> line_terminator (s ! i) \<Longrightarrow> matches Dot s i (Suc i)"
| m_not: "i < length s \<Longrightarrow> s ! i \<noteq> c \<Longrightarrow> matches (NotChr c) s i (Suc i)"
| m_seq: "matches r1 s i k \<Longrightarrow> matches r2 s k j \<Longrightarrow> matches (Seq r1 r2) s i j"
| m_altl: "matches r1 s i j \<Longrightarrow> matches (Alt r1 r2) s i j"
| m_altr: "matches r2 s i j \<Longrightarrow> matches (Alt r1 r2) s i j"
| m_star0: "i \<le> length s \<Longrightarrow> matches (Star r) s i i"
| m_star1: "matches r s i k \<Longrightarrow> matches (Star r) s k j \<Longrightarrow> matches (Star r) s i j"
| m_bol: "matches Bol s 0 0"
| m_eol: "i = length s \<Longrightarrow> matches Eol s i i"

inductive_simps matches_simps [simp]:
  "matches Eps s i j" "matches (Chr c) s i j" "matches Dot s i j" "matches (NotChr c) s i j"
  "matches (Seq r1 r2) s i j" "matches (Alt r1 r2) s i j" "matches Bol s i j" "matches Eol s i j"

inductive_cases star_cases: "matches (Star r) s i j"

lemma matches_bounds: "matches r s i j \<Longrightarrow> i \<le> j \<and> j \<le> length s"
  by (induction rule: matches.induct) auto

lemma star_ends_sound:
  assumes "\<And>i j. i \<le> length s \<Longrightarrow> j \<in> set (f i) \<Longrightarrow> matches r s i j"
  shows "i \<le> length s \<Longrightarrow> j \<in> set (star_ends n f i) \<Longrightarrow> matches (Star r) s i j"
proof (induction n arbitrary: i)
  case 0
  then show ?case by (simp add: m_star0)
next
  case (Suc n)
  from Suc.prems(2) consider "j = i" | k where "k \<in> set (f i)" "j \<in> set (star_ends n f k)"
    by auto
  then show ?case
  proof cases
    case 1
    with Suc.prems(1) show ?thesis by (simp add: m_star0)
  next
    case (2 k)
    then have "matches r s i k" using assms Suc.prems(1) by blast
    moreover from this have "k \<le> length s" by (simp add: matches_bounds)
    ultimately show ?thesis using Suc.IH 2(2) by (blast intro: m_star1)
  qed
qed

lemma star_induct [consumes 1, case_names stop more]:
  assumes "matches (Star r) s i j"
    and "\<And>i. i \<le> length s \<Longrightarrow> P i i"
    and "\<And>i k j. matches r s i k \<Longrightarrow> matches (Star r) s k j \<Longrightarrow> P k j \<Longrightarrow> P i j"
  shows "P i j"
proof -
  have "matches q t i j \<Longrightarrow> q = Star r \<Longrightarrow> t = s \<Longrightarrow> P i j" for q t i j
    by (induction rule: matches.induct) (use assms(2,3) in auto)
  with assms(1) show ?thesis by blast
qed

lemma star_ends_complete:
  assumes "\<And>i j. matches r s i j \<Longrightarrow> j \<in> set (f i)" and "matches (Star r) s i j"
  shows "\<forall>n. length s - i \<le> n \<longrightarrow> j \<in> set (star_ends n f i)"
  using assms(2)
proof (induction rule: star_induct)
  case (stop i)
  then show ?case by (metis list.set_intros(1) not0_implies_Suc star_ends.simps)
next
  case (more i k j)
  show ?case
  proof (intro allI impI)
    fix n
    assume n: "length s - i \<le> n"
    have k: "i \<le> k" "k \<le> length s" and "k \<in> set (f i)"
      using more(1) assms(1) matches_bounds by auto
    show "j \<in> set (star_ends n f i)"
    proof (cases "k = i")
      case True
      then show ?thesis using more(3) n by simp
    next
      case False
      then obtain m where m: "n = Suc m" "length s - k \<le> m"
        using k n by (cases n) auto
      then have "j \<in> set (star_ends m f k)" using more(3) by simp
      then show ?thesis using m(1) False k \<open>k \<in> set (f i)\<close> by auto
    qed
  qed
qed

lemma ends_iff_matches: "i \<le> length s \<Longrightarrow> j \<in> set (ends r s i) \<longleftrightarrow> matches r s i j"
proof (induction r arbitrary: i j)
  case (Seq r1 r2)
  then show ?case using matches_bounds by (force simp del: matches_simps(5) simp: matches_simps(5))
next
  case (Star r)
  have sound: "matches r s a b" if "a \<le> length s" "b \<in> set (ends r s a)" for a b
    using Star.IH that by blast
  have complete: "b \<in> set (ends r s a)" if "matches r s a b" for a b
  proof -
    have "a \<le> length s" using matches_bounds [OF that] by simp
    with Star.IH that show ?thesis by blast
  qed
  show ?case
  proof
    assume "j \<in> set (ends (Star r) s i)"
    then show "matches (Star r) s i j"
      using star_ends_sound [of s "ends r s" r i j "length s"] sound Star.prems by simp
  next
    assume "matches (Star r) s i j"
    from star_ends_complete [OF complete this] show "j \<in> set (ends (Star r) s i)" by simp
  qed
qed (auto simp: one_char_def)

lemma regex_search_iff: "regex_search s r \<longleftrightarrow> (\<exists>i j. matches r s i j)"
proof
  assume "regex_search s r"
  then obtain i where i: "i < Suc (length s)" "ends r s i \<noteq> []"
    unfolding regex_search_def list_ex_iff by (metis atLeastLessThan_iff set_upt)
  then obtain j where "j \<in> set (ends r s i)" by (meson list.set_sel(1))
  with i show "\<exists>i j. matches r s i j" using ends_iff_matches by fastforce
next
  assume "\<exists>i j. matches r s i j"
  then obtain i j where m: "matches r s i j" by blast
  then have "i \<le> length s" using matches_bounds by fastforce
  with m have "j \<in> set (ends r s i)" by (simp add: ends_iff_matches)
  then have "ends r s i \<noteq> []" by auto
  with \<open>i \<le> length s\<close> show "regex_search s r"
    unfolding regex_search_def list_ex_iff by (metis atLeastLessThan_iff le0 le_imp_less_Suc set_upt)
qed

section \<open>Shapes\<close>

text \<open>An expression between \<^verbatim>\<open>^\<close> and \<^verbatim>\<open>$\<close> is tried on the whole string.\<close>

definition anchored :: "re \<Rightarrow> re" where
  "anchored r = Seq Bol (Seq r Eol)"

fun lits :: "string \<Rightarrow> re" where
  "lits [] = Eps"
| "lits (c # cs) = Seq (Chr c) (lits cs)"

lemma matches_star_one:
  assumes "\<And>i j. matches r s i j \<longleftrightarrow> i < length s \<and> j = Suc i \<and> p (s ! i)"
  shows "matches (Star r) s i j \<longleftrightarrow> i \<le> j \<and> j \<le> length s \<and> (\<forall>k. i \<le> k \<and> k < j \<longrightarrow> p (s ! k))"
proof
  assume "matches (Star r) s i j"
  then show "i \<le> j \<and> j \<le> length s \<and> (\<forall>k. i \<le> k \<and> k < j \<longrightarrow> p (s ! k))"
  proof (induction rule: star_induct)
    case (more i k j)
    then have "k = Suc i" "p (s ! i)" "i < length s" using assms by auto
    with more show ?case by (metis Suc_leD le_neq_implies_less Suc_leI)
  qed auto
next
  assume "i \<le> j \<and> j \<le> length s \<and> (\<forall>k. i \<le> k \<and> k < j \<longrightarrow> p (s ! k))"
  then show "matches (Star r) s i j"
  proof (induction "j - i" arbitrary: i)
    case 0
    then show ?case by (simp add: m_star0)
  next
    case (Suc n)
    have "matches (Star r) s (Suc i) j"
      using Suc.hyps(2) Suc.prems by (intro Suc.hyps(1)) auto
    moreover have "matches r s i (Suc i)"
      using Suc.hyps(2) Suc.prems by (auto simp: assms)
    ultimately show ?case by (rule m_star1 [rotated])
  qed
qed

text \<open>
  The same relation seen from the text: \<open>spans r pre w post\<close> says that \<open>r\<close> matches \<open>w\<close> where
  \<open>pre\<close> stands before it and \<open>post\<close> after it.
\<close>

definition spans :: "re \<Rightarrow> string \<Rightarrow> string \<Rightarrow> string \<Rightarrow> bool" where
  "spans r pre w post \<longleftrightarrow> matches r (pre @ w @ post) (length pre) (length pre + length w)"

lemma search_anchored: "regex_search s (anchored r) \<longleftrightarrow> spans r [] s []"
  by (auto simp: regex_search_iff anchored_def spans_def)

lemma spans_Seq:
  "spans (Seq r1 r2) pre w post \<longleftrightarrow>
     (\<exists>u v. w = u @ v \<and> spans r1 pre u (v @ post) \<and> spans r2 (pre @ u) v post)"
proof
  assume "spans (Seq r1 r2) pre w post"
  then obtain k where k: "matches r1 (pre @ w @ post) (length pre) k"
    "matches r2 (pre @ w @ post) k (length pre + length w)"
    by (auto simp: spans_def)
  then have b: "length pre \<le> k" "k \<le> length pre + length w"
    using matches_bounds by blast+
  define u where "u = take (k - length pre) w"
  define v where "v = drop (k - length pre) w"
  have w: "w = u @ v" and "k = length pre + length u"
    using b by (auto simp: u_def v_def)
  with k have "spans r1 pre u (v @ post)" and "spans r2 (pre @ u) v post"
    by (simp_all add: spans_def add.assoc)
  with w show "\<exists>u v. w = u @ v \<and> spans r1 pre u (v @ post) \<and> spans r2 (pre @ u) v post" by blast
next
  assume "\<exists>u v. w = u @ v \<and> spans r1 pre u (v @ post) \<and> spans r2 (pre @ u) v post"
  then show "spans (Seq r1 r2) pre w post"
    by (auto simp: spans_def add.assoc)
qed

lemma spans_one:
  assumes "\<And>s i j. matches r s i j \<longleftrightarrow> i < length s \<and> j = Suc i \<and> p (s ! i)"
  shows "spans r pre w post \<longleftrightarrow> (\<exists>x. w = [x] \<and> p x)"
proof -
  have "length pre + length w = Suc (length pre) \<longleftrightarrow> (\<exists>x. w = [x])"
    by (cases w) auto
  then show ?thesis by (auto simp: spans_def assms nth_append)
qed

lemma spans_star_one:
  assumes "\<And>s i j. matches r s i j \<longleftrightarrow> i < length s \<and> j = Suc i \<and> p (s ! i)"
  shows "spans (Star r) pre w post \<longleftrightarrow> (\<forall>x\<in>set w. p x)"
proof -
  have "(\<forall>k. length pre \<le> k \<and> k < length pre + length w \<longrightarrow> p ((pre @ w @ post) ! k)) \<longleftrightarrow>
        (\<forall>k<length w. p (w ! k))"
    by (auto simp: nth_append) (metis add_diff_cancel_left' le_add1 nat_add_left_cancel_less not_add_less1)
  then show ?thesis
    by (simp add: spans_def matches_star_one [OF assms] all_set_conv_all_nth)
qed

definition no_breaks :: "string \<Rightarrow> bool" where
  "no_breaks s \<longleftrightarrow> (\<forall>c\<in>set s. \<not> line_terminator c)"

lemma spans_simps [simp]:
  "spans Eps pre w post \<longleftrightarrow> w = []"
  "spans (Alt r1 r2) pre w post \<longleftrightarrow> spans r1 pre w post \<or> spans r2 pre w post"
  "spans (Chr c) pre w post \<longleftrightarrow> w = [c]"
  "spans Dot pre w post \<longleftrightarrow> (\<exists>x. w = [x] \<and> \<not> line_terminator x)"
  "spans (NotChr c) pre w post \<longleftrightarrow> (\<exists>x. w = [x] \<and> x \<noteq> c)"
  "spans (Star Dot) pre w post \<longleftrightarrow> no_breaks w"
  "spans (Star (NotChr c)) pre w post \<longleftrightarrow> c \<notin> set w"
proof -
  show "spans (Chr c) pre w post \<longleftrightarrow> w = [c]"
    by (subst spans_one [where p = "\<lambda>x. x = c"]) auto
  show "spans Dot pre w post \<longleftrightarrow> (\<exists>x. w = [x] \<and> \<not> line_terminator x)"
    by (rule spans_one) auto
  show "spans (NotChr c) pre w post \<longleftrightarrow> (\<exists>x. w = [x] \<and> x \<noteq> c)"
    by (rule spans_one) auto
  show "spans (Star Dot) pre w post \<longleftrightarrow> no_breaks w"
    unfolding no_breaks_def by (rule spans_star_one) auto
  show "spans (Star (NotChr c)) pre w post \<longleftrightarrow> c \<notin> set w"
    by (subst spans_star_one [where p = "\<lambda>x. x \<noteq> c"]) auto
qed (auto simp: spans_def)

lemma spans_lits [simp]: "spans (lits v) pre w post \<longleftrightarrow> w = v"
  by (induction v arbitrary: pre w) (auto simp: spans_Seq)

end
