(* ===== verification/Boost_Strings.thy ===== *)
theory Boost_Strings
  imports Prelude
begin

text \<open>
  The part of \<^verbatim>\<open>boost/algorithm/string\<close> the program calls. Boost is not part of the
  repository, so its functions are a parameter of the model: a record \<open>boost_str\<close> that the
  definitions take as an argument. \<open>boost_ok\<close> states what the Boost documentation promises of
  them, and the lemmas below derive from it the only facts the other theories use.
  \<open>boost_ref\<close> is one instance that keeps the promise.
\<close>

record boost_str =
  bs_split :: "string \<Rightarrow> char \<Rightarrow> string list"      \<comment> \<open>\<^verbatim>\<open>split(_, s, is_any_of("c"))\<close>\<close>
  bs_trim_left :: "string \<Rightarrow> string"
  bs_trim_right :: "string \<Rightarrow> string"
  bs_iequals :: "string \<Rightarrow> string \<Rightarrow> bool"
  bs_join :: "string list \<Rightarrow> string \<Rightarrow> string"

definition to_upper :: "char \<Rightarrow> char" where
  "to_upper c = (if CHR ''a'' \<le> c \<and> c \<le> CHR ''z'' then char_of (of_char c - (32::nat)) else c)"

text \<open>
  \<^item> \<^verbatim>\<open>split\<close> (with the default \<^verbatim>\<open>token_compress_off\<close>): the tokens, at least one,
    contain no separator, and with a separator between them they are the input;
  \<^item> \<^verbatim>\<open>trim_left\<close>, \<^verbatim>\<open>trim_right\<close>: removes the leading (trailing) spaces, all of
    them and nothing else (the trailing ones are the leading ones of the reversed string);
  \<^item> \<^verbatim>\<open>iequals\<close>: equality after case conversion, character by character;
  \<^item> \<^verbatim>\<open>join\<close>: the elements with the separator between them.
\<close>

definition split_ok :: "boost_str \<Rightarrow> bool" where
  "split_ok b \<longleftrightarrow> (\<forall>s c. bs_split b s c \<noteq> [] \<and> (\<forall>t\<in>set (bs_split b s c). c \<notin> set t) \<and>
                       intercalate [c] (bs_split b s c) = s)"

definition trimmed :: "(string \<Rightarrow> string) \<Rightarrow> string \<Rightarrow> bool" where
  "trimmed trim s \<longleftrightarrow> (\<exists>u. s = u @ trim s \<and> (\<forall>c\<in>set u. is_space c)) \<and>
                    (trim s \<noteq> [] \<longrightarrow> \<not> is_space (hd (trim s)))"

definition trim_ok :: "boost_str \<Rightarrow> bool" where
  "trim_ok b \<longleftrightarrow> (\<forall>s. trimmed (bs_trim_left b) s) \<and>
                 (\<forall>s. trimmed (\<lambda>r. rev (bs_trim_right b (rev r))) s)"

definition iequals_ok :: "boost_str \<Rightarrow> bool" where
  "iequals_ok b \<longleftrightarrow> (\<forall>s t. bs_iequals b s t \<longleftrightarrow> map to_upper s = map to_upper t)"

definition join_ok :: "boost_str \<Rightarrow> bool" where
  "join_ok b \<longleftrightarrow> (\<forall>ts sep. bs_join b ts sep = intercalate sep ts)"

definition boost_ok :: "boost_str \<Rightarrow> bool" where
  "boost_ok b \<longleftrightarrow> split_ok b \<and> trim_ok b \<and> iequals_ok b \<and> join_ok b"

lemma bs_split_eq:
  assumes "boost_ok b"
  shows "bs_split b s c = split_on c s"
proof -
  have "bs_split b s c \<noteq> []" and "\<forall>t\<in>set (bs_split b s c). c \<notin> set t"
    and "intercalate [c] (bs_split b s c) = s"
    using assms by (auto simp: boost_ok_def split_ok_def)
  then show ?thesis by (metis split_on_intercalate)
qed

lemma dropWhile_unique:
  assumes "s = u @ v" and "\<forall>c\<in>set u. P c" and "v \<noteq> [] \<longrightarrow> \<not> P (hd v)"
  shows "v = dropWhile P s"
proof -
  have "dropWhile P s = dropWhile P v"
    using assms(1,2) by (simp add: dropWhile_append2)
  also have "\<dots> = v"
    using assms(3) by (cases v) auto
  finally show ?thesis by simp
qed

lemma trimmed_eq: "trimmed trim s \<Longrightarrow> trim s = dropWhile is_space s"
  unfolding trimmed_def by (metis dropWhile_unique)

lemma bs_trim_left_eq:
  assumes "boost_ok b"
  shows "bs_trim_left b s = dropWhile is_space s"
  using assms by (intro trimmed_eq) (simp add: boost_ok_def trim_ok_def)

lemma bs_trim_right_eq:
  assumes "boost_ok b"
  shows "bs_trim_right b s = rev (dropWhile is_space (rev s))"
proof -
  have "rev (bs_trim_right b (rev (rev s))) = dropWhile is_space (rev s)"
    using assms trimmed_eq [of "\<lambda>r. rev (bs_trim_right b (rev r))" "rev s"]
    by (simp add: boost_ok_def trim_ok_def)
  then show ?thesis by (metis rev_rev_ident)
qed

lemma bs_iequals_eq: "boost_ok b \<Longrightarrow> bs_iequals b s t \<longleftrightarrow> map to_upper s = map to_upper t"
  by (simp add: boost_ok_def iequals_ok_def)

lemma bs_join_eq: "boost_ok b \<Longrightarrow> bs_join b ts sep = intercalate sep ts"
  by (simp add: boost_ok_def join_ok_def)

lemmas boost_eqs = bs_split_eq bs_trim_left_eq bs_trim_right_eq bs_iequals_eq bs_join_eq

section \<open>An instance\<close>

definition boost_ref :: boost_str where
  "boost_ref =
     \<lparr>bs_split = (\<lambda>s c. split_on c s),
      bs_trim_left = dropWhile is_space,
      bs_trim_right = (\<lambda>s. rev (dropWhile is_space (rev s))),
      bs_iequals = (\<lambda>s t. map to_upper s = map to_upper t),
      bs_join = (\<lambda>ts sep. intercalate sep ts)\<rparr>"

lemma trimmed_dropWhile: "trimmed (dropWhile is_space) s"
proof -
  have "s = takeWhile is_space s @ dropWhile is_space s"
    and "\<forall>c\<in>set (takeWhile is_space s). is_space c"
    by (auto dest: set_takeWhileD)
  then show ?thesis
    unfolding trimmed_def by (metis hd_dropWhile)
qed

lemma boost_ref_ok [simp]: "boost_ok boost_ref"
proof -
  have "split_ok boost_ref"
    by (auto simp: split_ok_def boost_ref_def intercalate_split_on dest: split_on_sep_free)
  moreover have "trim_ok boost_ref"
    using trimmed_dropWhile by (simp add: trim_ok_def boost_ref_def)
  moreover have "iequals_ok boost_ref" and "join_ok boost_ref"
    by (auto simp: iequals_ok_def join_ok_def boost_ref_def)
  ultimately show ?thesis by (simp add: boost_ok_def)
qed

lemma boost_ref_eqs [simp]:
  "bs_split boost_ref s c = split_on c s"
  "bs_trim_left boost_ref s = dropWhile is_space s"
  "bs_trim_right boost_ref s = rev (dropWhile is_space (rev s))"
  "bs_iequals boost_ref s t = (map to_upper s = map to_upper t)"
  "bs_join boost_ref ts sep = intercalate sep ts"
  by (simp_all add: boost_ref_def)

end
