(* ===== verification/Generate.thy ===== *)
theory Generate
  imports Boost_Strings "HOL-Library.Word"
begin

text \<open>
  \<^verbatim>\<open>src/generate.cpp\<close>: the names behind which URLs are hidden. The Mersenne twister and
  \<^verbatim>\<open>std::uniform_int_distribution\<close> have no value the standard fixes for the program
  (the algorithm of the distribution is the implementation's), so random numbers are a parameter:
  a record \<open>rng\<close> of the values \<^verbatim>\<open>std::random_device\<close> returns, the engine a seed gives
  and the draw from a closed interval, of which only the range is assumed (\<open>rng_ok\<close>).

  \<open>generate_randstr\<close> draws the bound of its loop anew in every round, as the source does, so that
  it ends is a theorem and not a matter of form: the loop is a \<open>partial_function\<close>, \<open>None\<close>
  standing for a loop that does not end or a read outside an array.
\<close>

section \<open>The tables\<close>

definition nsfw :: "string list" where
  "nsfw = [
    ''419-scam'', ''420'', ''500-dollar-cash-prize'', ''69'', ''abuse'', ''adblock-bypass'',
    ''ads'', ''advert'', ''ambien'', ''anarchist-police-takeover'', ''anarchy'', ''antifa'',
    ''ass'', ''ass-beating'', ''audio'', ''bad-mixtape'', ''badonkadonk'', ''bank-transfer'',
    ''bbw'', ''beatdown'', ''beating-women'', ''big-bang'', ''big-cash-prize'', ''big-cocks'',
    ''big-milf'', ''big-willie'', ''bitcoin-2x'', ''bitcoin-cash-paydirt'', ''bitcoin-miner'',
    ''bribe-your-boss-legally'', ''buproprion'', ''cash'', ''chop'', ''cialis'', ''cocaine'',
    ''crack'', ''crime-tips'', ''crypto'', ''daesh'', ''darkweb'', ''detector'', ''diazepam'',
    ''doctor'', ''dog-sex'', ''domestic-abuse'', ''donkey-cock'', ''drive-by-shooting'',
    ''drugs'', ''effexor'', ''etherium-multiplier'', ''execute'', ''fake'', ''fap'',
    ''fappening'', ''final'', ''flame'', ''flash'', ''gangbang'', ''gmail'', ''goatse'',
    ''gone-wild'', ''gps'', ''gps-location'', ''gun-fight'', ''hacker'', ''he-dies'',
    ''he-fux-her'', ''heroin'', ''homeless-death'', ''homeless-man'', ''homeless-woman'',
    ''hood-shooting'', ''horse-sex'', ''hotmail'', ''how-to-steal'', ''how-to-win'',
    ''huge-cash-prize'', ''i-make-2000-week-sitting-at-home'', ''install'', ''internet'',
    ''interview'', ''ip-finder'', ''ip-hijacker'', ''ip-stealer'', ''isis'', ''jailbait'',
    ''java'', ''journalist'', ''keygen'', ''keylog'', ''keylogger'', ''knife-fight'',
    ''levitra'', ''lexapro'', ''locator'', ''loli'', ''lolicon'', ''lorazepam'', ''lsd'',
    ''male-enhancement'', ''malware'', ''marijuana'', ''milf-69'', ''mine-coins-for-free'',
    ''mommy-milkers'', ''monster-erection'', ''my-tits-are-legend'',
    ''no-holds-barred-beatdown'', ''password'', ''penetration'', ''penis-enlargement'',
    ''petit-milf'', ''phishing'', ''physical-removal'', ''pig-sex'', ''pirated-podcasts'',
    ''pirated-movies'', ''pirated-music'', ''pirated-shows'', ''pizzagate'', ''popup'',
    ''prozac'', ''pussy'', ''pwn'', ''qanon'', ''rat-sex'', ''risperidol'', ''root'', ''scam'',
    ''secret'', ''seroquel'', ''sex'', ''sexwithcats'', ''sexwithdogs'', ''she-dies'',
    ''she-fux-him'', ''shit'', ''shooting'', ''shoplifting'', ''snuff'', ''sound'', ''spam'',
    ''spyware'', ''steal'', ''stoned'', ''stoned-for-adultery'', ''subway-death'',
    ''taliban-interview'', ''taliban-meetup'', ''taliban-recruiter'', ''terrorist'',
    ''the-donald'', ''they-hurt-her'', ''tighten-my-pussy'', ''torrent'', ''trojan'',
    ''underground-death'', ''unlocker'', ''viagra'', ''video'', ''virus'', ''weed'',
    ''weight-loss'', ''wet-pussy'', ''wife-pussy'', ''what-they-dont-want-u-2-know'',
    ''woman-beaten'', ''woman-gets-stoned'', ''worldstar-fight'', ''youtube-download'']"

definition ext :: "string list" where
  "ext = [
    ''.avi'', ''.bat'', ''.csv'', ''.divx'', ''.doc'', ''.docx'', ''.exe'', ''.gif'', ''.ini'',
    ''.jpg'', ''.m4a'', ''.mkv'', ''.mov'', ''.mp3'', ''.mp4'', ''.pdf'', ''.png'', ''.ppt'',
    ''.txt'', ''.xls'']"

definition charlist :: string where
  "charlist = ''abcdefghijklmnopqrstuvwxyzABCDEFGHIJKLMNOPQRSTUVWXYZ0123456789-_''"

section \<open>Random numbers\<close>

type_synonym engine = "32 word list"       \<comment> \<open>the state of \<^verbatim>\<open>std::mt19937\<close>\<close>

record rng =
  rd_value :: "nat \<Rightarrow> 32 word"               \<comment> \<open>the n-th value of \<^verbatim>\<open>std::random_device\<close>\<close>
  mt_seed :: "32 word \<Rightarrow> engine"
  uniform :: "nat \<Rightarrow> nat \<Rightarrow> engine \<Rightarrow> nat \<times> engine"

definition rng_ok :: "rng \<Rightarrow> bool" where
  "rng_ok r \<longleftrightarrow> (\<forall>lo hi mt. lo \<le> hi \<longrightarrow> fst (uniform r lo hi mt) \<in> {lo..hi})"

text \<open>\<^verbatim>\<open>operator[]\<close> of a \<^verbatim>\<open>std::array\<close>: undefined outside.\<close>

definition arr_at :: "'a list \<Rightarrow> nat \<Rightarrow> 'a option" where
  "arr_at xs i = (if i < length xs then Some (xs ! i) else None)"

section \<open>The code\<close>

partial_function (option) randstr_loop ::
    "rng \<Rightarrow> nat \<Rightarrow> string \<Rightarrow> engine \<Rightarrow> (string \<times> engine) option" where
  "randstr_loop r i os mt =
     (let d = uniform r 6 15 mt in
      if i < fst d then
        (let e = uniform r 0 (length charlist - 1) (snd d) in
         case str_at charlist (fst e) of
           None \<Rightarrow> None
         | Some c \<Rightarrow> randstr_loop r (Suc i) (os @ [c]) (snd e))
      else Some (os, snd d))"

definition generate_randstr :: "rng \<Rightarrow> engine \<Rightarrow> (string \<times> engine) option" where
  "generate_randstr r mt = randstr_loop r 0 [] mt"

definition pick_nsfw :: "rng \<Rightarrow> engine \<Rightarrow> (string \<times> engine) option" where
  "pick_nsfw r mt =
     (let d = uniform r 0 (length nsfw - 1) mt
      in case arr_at nsfw (fst d) of None \<Rightarrow> None | Some w \<Rightarrow> Some (w, snd d))"

text \<open>The loop over \<^verbatim>\<open>len\<close>: rounds to go, \<^verbatim>\<open>random_insert_count\<close>, \<^verbatim>\<open>out\<close>.\<close>

fun pick_words :: "rng \<Rightarrow> nat \<Rightarrow> nat \<Rightarrow> string list \<Rightarrow> engine \<Rightarrow> (string list \<times> nat \<times> engine) option" where
  "pick_words r 0 cnt out mt = Some (out, cnt, mt)"
| "pick_words r (Suc k) cnt out mt =
     (let d = (if cnt < 3 then uniform r 0 4 mt else (1, mt)) in
      if cnt < 3 \<and> fst d = 0 then
        (case generate_randstr r (snd d) of
           None \<Rightarrow> None
         | Some (s, mt') \<Rightarrow> pick_words r k (Suc cnt) (out @ [s]) mt')
      else
        (case pick_nsfw r (snd d) of
           None \<Rightarrow> None
         | Some (w, mt') \<Rightarrow> pick_words r k cnt (out @ [w]) mt'))"

text \<open>The argument \<open>n\<close> counts the values taken from \<^verbatim>\<open>std::random_device\<close> so far.\<close>

definition generate_random_filename :: "boost_str \<Rightarrow> rng \<Rightarrow> nat \<Rightarrow> (string \<times> nat) option" where
  "generate_random_filename b r n =
     (let mt = mt_seed r (rd_value r n);
          d = uniform r 5 8 mt in
      case pick_words r (fst d) 0 [] (snd d) of
        None \<Rightarrow> None
      | Some (out, cnt, mt1) \<Rightarrow>
          (case (if cnt = 0
                 then (case generate_randstr r mt1 of
                         None \<Rightarrow> None
                       | Some (s, mt2) \<Rightarrow> Some (out @ [s], mt2))
                 else Some (out, mt1)) of
             None \<Rightarrow> None
           | Some (out', mt3) \<Rightarrow>
               (case arr_at ext (fst (uniform r 0 (length ext - 1) mt3)) of
                  None \<Rightarrow> None
                | Some e \<Rightarrow> Some (bs_join b out' ''-'' @ e, Suc n))))"

section \<open>Facts\<close>

lemma length_tables [simp]: "length nsfw = 170" "length ext = 20" "length charlist = 64"
  by (simp_all add: nsfw_def ext_def charlist_def)

lemma uniform_range: "rng_ok r \<Longrightarrow> lo \<le> hi \<Longrightarrow> lo \<le> fst (uniform r lo hi mt) \<and> fst (uniform r lo hi mt) \<le> hi"
  by (auto simp: rng_ok_def)

definition is_randstr :: "string \<Rightarrow> bool" where
  "is_randstr s \<longleftrightarrow> 6 \<le> length s \<and> length s \<le> 15 \<and> set s \<subseteq> set charlist"

lemma randstr_loop_returns:
  assumes "rng_ok r" and "i \<le> 15" and "length os = i" and "set os \<subseteq> set charlist"
  shows "\<exists>s mt'. randstr_loop r i os mt = Some (s, mt') \<and> is_randstr s"
  using assms(2-)
proof (induction "15 - i" arbitrary: i os mt rule: less_induct)
  case less
  have d: "6 \<le> fst (uniform r 6 15 mt)" "fst (uniform r 6 15 mt) \<le> 15"
    using uniform_range [OF assms(1), of 6 15 mt] by auto
  show ?case
  proof (cases "i < fst (uniform r 6 15 mt)")
    case False
    with less.prems d show ?thesis
      by (subst randstr_loop.simps) (auto simp: Let_def is_randstr_def)
  next
    case True
    define e where "e = uniform r 0 63 (snd (uniform r 6 15 mt))"
    have "fst e < 64"
      using uniform_range [OF assms(1), of 0 63 "snd (uniform r 6 15 mt)"] by (simp add: e_def)
    then have c: "str_at charlist (fst e) = Some (charlist ! fst e)"
      and mem: "charlist ! fst e \<in> set charlist"
      by (simp_all add: str_at_def)
    have "\<exists>s mt'. randstr_loop r (Suc i) (os @ [charlist ! fst e]) (snd e) = Some (s, mt') \<and> is_randstr s"
      using less.prems True d mem by (intro less.hyps) auto
    with True c show ?thesis
      by (subst randstr_loop.simps) (simp add: Let_def e_def)
  qed
qed

lemma generate_randstr_returns:
  "rng_ok r \<Longrightarrow> \<exists>s mt'. generate_randstr r mt = Some (s, mt') \<and> is_randstr s"
  unfolding generate_randstr_def by (rule randstr_loop_returns) auto

lemma pick_nsfw_returns: "rng_ok r \<Longrightarrow> \<exists>w mt'. pick_nsfw r mt = Some (w, mt') \<and> w \<in> set nsfw"
  using uniform_range [of r 0 169 mt] by (auto simp: pick_nsfw_def arr_at_def Let_def)

definition is_part :: "string \<Rightarrow> bool" where
  "is_part w \<longleftrightarrow> w \<in> set nsfw \<or> is_randstr w"

lemma pick_words_returns:
  assumes "rng_ok r" and "\<forall>w\<in>set out. is_part w" and "cnt \<noteq> 0 \<Longrightarrow> \<exists>w\<in>set out. is_randstr w"
  shows "\<exists>out' cnt' mt'. pick_words r k cnt out mt = Some (out', cnt', mt') \<and>
           length out' = length out + k \<and> (\<forall>w\<in>set out'. is_part w) \<and>
           (cnt' \<noteq> 0 \<longrightarrow> (\<exists>w\<in>set out'. is_randstr w))"
  using assms(2,3)
proof (induction k arbitrary: cnt out mt)
  case 0
  then show ?case by simp
next
  case (Suc k)
  let ?d = "if cnt < 3 then uniform r 0 4 mt else (1, mt)"
  show ?case
  proof (cases "cnt < 3 \<and> fst ?d = 0")
    case True
    obtain s mt' where s: "generate_randstr r (snd ?d) = Some (s, mt')" "is_randstr s"
      using generate_randstr_returns [OF assms(1)] by blast
    then show ?thesis
      using True Suc.IH [of "out @ [s]" "Suc cnt" mt'] Suc.prems
      by (auto simp: Let_def is_part_def)
  next
    case False
    obtain w mt' where w: "pick_nsfw r (snd ?d) = Some (w, mt')" "w \<in> set nsfw"
      using pick_nsfw_returns [OF assms(1)] by blast
    then show ?thesis
      using False Suc.IH [of "out @ [w]" cnt mt'] Suc.prems
      by (auto simp: Let_def is_part_def)
  qed
qed

definition is_token :: "string \<Rightarrow> bool" where
  "is_token t \<longleftrightarrow>
     (\<exists>ws e. t = intercalate ''-'' ws @ e \<and> e \<in> set ext \<and> 5 \<le> length ws \<and> length ws \<le> 9 \<and>
             (\<forall>w\<in>set ws. is_part w) \<and> (\<exists>w\<in>set ws. is_randstr w))"

lemma generate_random_filename_token:
  assumes "boost_ok b" and "rng_ok r"
  shows "\<exists>t. generate_random_filename b r n = Some (t, Suc n) \<and> is_token t"
proof -
  define mt where "mt = mt_seed r (rd_value r n)"
  define len where "len = fst (uniform r 5 8 mt)"
  have len: "5 \<le> len" "len \<le> 8"
    using uniform_range [OF assms(2), of 5 8 mt] by (auto simp: len_def)
  obtain out cnt mt1 where p: "pick_words r len 0 [] (snd (uniform r 5 8 mt)) = Some (out, cnt, mt1)"
    and out: "length out = len" "\<forall>w\<in>set out. is_part w"
    and rnd: "cnt \<noteq> 0 \<longrightarrow> (\<exists>w\<in>set out. is_randstr w)"
    using pick_words_returns [OF assms(2), of "[]" 0 len "snd (uniform r 5 8 mt)"] by auto
  obtain s mt2 where s: "generate_randstr r mt1 = Some (s, mt2)" "is_randstr s"
    using generate_randstr_returns [OF assms(2)] by blast
  define res where "res = (if cnt = 0 then (out @ [s], mt2) else (out, mt1))"
  have parts: "\<forall>w\<in>set (fst res). is_part w" "\<exists>w\<in>set (fst res). is_randstr w"
    "5 \<le> length (fst res)" "length (fst res) \<le> 9"
    using out rnd s(2) len by (auto simp: res_def is_part_def)
  define i where "i = fst (uniform r 0 19 (snd res))"
  have "i < length ext"
    using uniform_range [OF assms(2), of 0 19 "snd res"] by (simp add: i_def)
  then have e: "arr_at ext i = Some (ext ! i)" and "ext ! i \<in> set ext"
    by (simp_all add: arr_at_def)
  then have tok: "is_token (intercalate ''-'' (fst res) @ ext ! i)"
    using parts unfolding is_token_def by blast
  have "generate_random_filename b r n = Some (intercalate ''-'' (fst res) @ ext ! i, Suc n)"
    using p s(1) e assms(1)
    by (simp add: generate_random_filename_def mt_def len_def i_def res_def Let_def bs_join_eq split: if_splits)
  with tok show ?thesis by blast
qed

lemma nsfw_chars_check: "list_all (list_all (\<lambda>c. c \<in> set ''etaoinrshldcumgfpwybvkxjqz-0123456789'')) nsfw"
  unfolding nsfw_def by simp

lemma nsfw_chars: "w \<in> set nsfw \<Longrightarrow> set w \<subseteq> set charlist"
proof -
  assume "w \<in> set nsfw"
  then have "set w \<subseteq> set ''etaoinrshldcumgfpwybvkxjqz-0123456789''"
    using nsfw_chars_check by (fastforce simp only: list_all_iff)
  moreover have "set ''etaoinrshldcumgfpwybvkxjqz-0123456789'' \<subseteq> set charlist"
    by (simp add: charlist_def)
  ultimately show ?thesis by (rule subset_trans)
qed

lemma part_chars: "is_part w \<Longrightarrow> set w \<subseteq> set charlist"
  by (auto simp: is_part_def is_randstr_def dest: nsfw_chars)

lemma set_intercalate: "set (intercalate sep ts) \<subseteq> set sep \<union> (\<Union>t\<in>set ts. set t)"
  by (induction ts) (auto simp: intercalate_Cons split: if_splits)

lemma sep_in_intercalate: "2 \<le> length ts \<Longrightarrow> set sep \<subseteq> set (intercalate sep ts)"
  by (cases ts) (auto simp: intercalate_Cons)

text \<open>What the routes see of a token.\<close>

lemma token_parts:
  assumes "is_token t"
  shows "\<exists>stem e. t = stem @ e \<and> e \<in> set ext \<and> set stem \<subseteq> set charlist \<and> CHR ''-'' \<in> set stem"
proof -
  obtain ws e where t: "t = intercalate ''-'' ws @ e" "e \<in> set ext" "5 \<le> length ws"
    "\<forall>w\<in>set ws. is_part w"
    using assms by (auto simp: is_token_def)
  have "set (intercalate ''-'' ws) \<subseteq> set charlist"
    using set_intercalate [of "''-''" ws] t(4) part_chars by (fastforce simp: charlist_def)
  moreover have "CHR ''-'' \<in> set (intercalate ''-'' ws)"
    using sep_in_intercalate [of ws "''-''"] t(3) by simp
  ultimately show ?thesis using t(1,2) by blast
qed

section \<open>Properties\<close>

text \<open>
  C36: The bound of \<open>generate_randstr\<close>'s loop is drawn again in every round, and still the loop
  ends whatever is drawn: the string has between 6 and 15 characters, all from the table, and no
  index is out of range.
\<close>

theorem generate_randstr_terminates:
  assumes "rng_ok r"
  shows "\<exists>s mt'. generate_randstr r mt = Some (s, mt') \<and> 6 \<le> length s \<and> length s \<le> 15 \<and>
                 set s \<subseteq> set charlist"
  using generate_randstr_returns [OF assms] by (auto simp: is_randstr_def)

definition rng_low :: rng where
  "rng_low = \<lparr>rd_value = (\<lambda>_. 0), mt_seed = (\<lambda>_. []), uniform = (\<lambda>lo hi mt. (lo, mt))\<rparr>"

lemma rng_low_ok [simp]: "rng_ok rng_low"
  by (simp add: rng_ok_def rng_low_def)

theorem generate_randstr_terminates_witness:
  "\<exists>s mt'. generate_randstr rng_low [] = Some (s, mt') \<and> 6 \<le> length s \<and> length s \<le> 15 \<and>
           set s \<subseteq> set charlist"
  by (rule generate_randstr_terminates) simp

text \<open>
  C35: \<open>generate_random_filename\<close> always returns, without reading outside its tables, and what it
  returns is five to nine parts joined by dashes and an extension of the table, each part a
  word of the table or a random string, at least one of them random.
\<close>

theorem generate_random_filename_shape:
  assumes "boost_ok b" and "rng_ok r"
  shows "\<exists>ws e. generate_random_filename b r n = Some (intercalate ''-'' ws @ e, Suc n) \<and> e \<in> set ext \<and>
           5 \<le> length ws \<and> length ws \<le> 9 \<and> (\<forall>w\<in>set ws. w \<in> set nsfw \<or> is_randstr w) \<and>
           (\<exists>w\<in>set ws. is_randstr w)"
  using generate_random_filename_token [OF assms, of n] by (auto simp: is_token_def is_part_def)

theorem generate_random_filename_shape_witness:
  "\<exists>ws e. generate_random_filename boost_ref rng_low 0 = Some (intercalate ''-'' ws @ e, Suc 0) \<and>
     e \<in> set ext \<and> 5 \<le> length ws \<and> length ws \<le> 9 \<and> (\<forall>w\<in>set ws. w \<in> set nsfw \<or> is_randstr w) \<and>
     (\<exists>w\<in>set ws. is_randstr w)"
  by (rule generate_random_filename_shape) simp_all

end
