(* ===== verification/Routes.thy ===== *)
theory Routes
  imports Regex Generate
begin

text \<open>
  The routing table of \<^verbatim>\<open>request::handle_request\<close> and its first-match search, with the
  set of targets each entry is reached by. The theory also connects the table with the generator:
  every name it can return is routed to the lookup of a shortened URL.
\<close>

section \<open>The code\<close>

text \<open>The function pointers of the table.\<close>

datatype route = HandleFile | HandlePost | HandleGetTemplate | HandleGetUrl

definition re_file :: re where
  "re_file = anchored (Seq (Chr CHR ''/'')
     (Alt (Seq (lits ''assets/'') (Star Dot)) (Alt (lits ''favicon.ico'') (lits ''robots.txt''))))"

definition re_post :: re where
  "re_post = anchored (lits ''/post.html'')"

definition re_root :: re where
  "re_root = anchored (lits ''/'')"

definition re_html :: re where
  "re_html = anchored (Seq (Chr CHR ''/'') (Alt (Seq (Star Dot) (lits ''.html'')) Eps))"

definition re_token :: re where
  "re_token = anchored (Seq (Chr CHR ''/'') (Seq (NotChr CHR ''/'') (Star (NotChr CHR ''/''))))"

definition routes :: "(re \<times> route) list" where
  "routes = [(re_file, HandleFile), (re_post, HandlePost), (re_root, HandleGetTemplate),
             (re_html, HandleGetTemplate), (re_token, HandleGetUrl)]"

fun find_route :: "(re \<times> route) list \<Rightarrow> string \<Rightarrow> route option" where
  "find_route [] target = None"
| "find_route ((r, fn) # rs) target =
     (if regex_search target r then Some fn else find_route rs target)"

text \<open>The test \<^verbatim>\<open>handle_request\<close> makes before it looks at the table.\<close>

definition illegal_target :: "string \<Rightarrow> bool" where
  "illegal_target t = (t = [] \<or> str_at t 0 \<noteq> Some CHR ''/'' \<or> has_substr t ''..'')"

section \<open>What each entry accepts\<close>

lemmas accept_defs = re_file_def re_post_def re_root_def re_html_def re_token_def

lemma accept_file:
  "regex_search t re_file \<longleftrightarrow>
     (\<exists>r. t = ''/assets/'' @ r \<and> no_breaks r) \<or> t = ''/favicon.ico'' \<or> t = ''/robots.txt''"
  by (auto simp: accept_defs search_anchored spans_Seq simp del: lits.simps)

lemma accept_post: "regex_search t re_post \<longleftrightarrow> t = ''/post.html''"
  by (simp add: accept_defs search_anchored del: lits.simps)

lemma accept_root: "regex_search t re_root \<longleftrightarrow> t = ''/''"
  by (simp add: accept_defs search_anchored del: lits.simps)

lemma accept_html:
  "regex_search t re_html \<longleftrightarrow> t = ''/'' \<or> (\<exists>r. t = ''/'' @ r @ ''.html'' \<and> no_breaks r)"
  by (auto simp: accept_defs search_anchored spans_Seq simp del: lits.simps)

lemma accept_token:
  "regex_search t re_token \<longleftrightarrow> (\<exists>r. t = ''/'' @ r \<and> r \<noteq> [] \<and> CHR ''/'' \<notin> set r)"
proof
  assume "\<exists>r. t = ''/'' @ r \<and> r \<noteq> [] \<and> CHR ''/'' \<notin> set r"
  then obtain x r where "t = ''/'' @ [x] @ r" "x \<noteq> CHR ''/''" "CHR ''/'' \<notin> set r"
    by (metis append_Cons append_Nil list.exhaust list.set_intros(1,2))
  then show "regex_search t re_token"
    unfolding accept_defs search_anchored spans_Seq spans_simps by blast
qed (auto simp: accept_defs search_anchored spans_Seq)

lemmas accepts = accept_file accept_post accept_root accept_html accept_token

lemma find_route_routes:
  "find_route routes t =
     (if regex_search t re_file then Some HandleFile
      else if regex_search t re_post then Some HandlePost
      else if regex_search t re_root \<or> regex_search t re_html then Some HandleGetTemplate
      else if regex_search t re_token then Some HandleGetUrl
      else None)"
  by (simp add: routes_def)

lemma illegal_target_iff: "illegal_target t \<longleftrightarrow> \<not> starts_with t ''/'' \<or> has_substr t ''..''"
  by (cases t) (auto simp: illegal_target_def str_at_def)

lemma post_not_file: "regex_search t re_post \<Longrightarrow> \<not> regex_search t re_file"
  by (auto simp: accept_post accept_file)

lemma html_not_fixed:
  "\<exists>r. t = ''/'' @ r @ ''.html'' \<and> no_breaks r \<Longrightarrow> \<not> (t = ''/favicon.ico'' \<or> t = ''/robots.txt'')"
proof -
  assume "\<exists>r. t = ''/'' @ r @ ''.html'' \<and> no_breaks r"
  then have "last t = CHR ''l''" by auto
  then show ?thesis by auto
qed

lemma root_not_others:
  "t = ''/'' \<Longrightarrow> \<not> (\<exists>r. t = ''/assets/'' @ r \<and> no_breaks r) \<and> t \<noteq> ''/favicon.ico'' \<and>
     t \<noteq> ''/robots.txt'' \<and> t \<noteq> ''/post.html''"
  by simp

lemma post_is_html: "\<exists>q. ''post.html'' = q @ ''.html'' \<and> no_breaks q"
  by (rule exI [of _ "''post''"]) (simp add: no_breaks_def line_terminator_def)

lemma url_route:
  "find_route routes t = Some HandleGetUrl \<longleftrightarrow>
     (\<exists>r. t = ''/'' @ r \<and> r \<noteq> [] \<and> CHR ''/'' \<notin> set r \<and> r \<noteq> ''favicon.ico'' \<and> r \<noteq> ''robots.txt'' \<and>
          \<not> (\<exists>q. r = q @ ''.html'' \<and> no_breaks q))"
proof (cases "regex_search t re_token")
  case False
  then show ?thesis by (auto simp: find_route_routes accept_token)
next
  case True
  then obtain r where r: "t = ''/'' @ r" "r \<noteq> []" "CHR ''/'' \<notin> set r"
    by (auto simp: accept_token)
  have "regex_search t re_file \<longleftrightarrow> r = ''favicon.ico'' \<or> r = ''robots.txt''"
    using r by (auto simp: accept_file)
  moreover have "regex_search t re_html \<longleftrightarrow> (\<exists>q. r = q @ ''.html'' \<and> no_breaks q)"
    using r by (simp add: accept_html)
  moreover have "regex_search t re_post \<longrightarrow> (\<exists>q. r = q @ ''.html'' \<and> no_breaks q)"
    using r post_is_html by (simp add: accept_post)
  moreover have "\<not> regex_search t re_root"
    using r by (simp add: accept_root)
  ultimately have "find_route routes t = Some HandleGetUrl \<longleftrightarrow>
      r \<noteq> ''favicon.ico'' \<and> r \<noteq> ''robots.txt'' \<and> \<not> (\<exists>q. r = q @ ''.html'' \<and> no_breaks q)"
    using True by (auto simp: find_route_routes)
  with r show ?thesis by simp
qed

section \<open>Tokens and routes\<close>

lemma ext_check:
  "list_all (\<lambda>e. count_list e CHR ''.'' = 1 \<and> CHR ''/'' \<notin> set e \<and> CHR ''-'' \<notin> set e \<and>
                 e \<noteq> [] \<and> last e \<noteq> CHR ''l'') ext"
  by (simp add: ext_def)

lemma ext_facts:
  assumes "e \<in> set ext"
  shows "count_list e CHR ''.'' = 1" and "CHR ''/'' \<notin> set e" and "e \<noteq> []" and "last e \<noteq> CHR ''l''"
  using ext_check assms by (auto simp: list_all_iff)

lemma dotdot_two_dots: "has_substr s ''..'' \<Longrightarrow> 2 \<le> count_list s CHR ''.''"
  by (auto simp: has_substr_iff)

lemma token_route:
  assumes "is_token t"
  shows "\<not> illegal_target (CHR ''/'' # t) \<and> find_route routes (CHR ''/'' # t) = Some HandleGetUrl"
proof -
  obtain stem e where t: "t = stem @ e" "e \<in> set ext" "set stem \<subseteq> set charlist" "CHR ''-'' \<in> set stem"
    using token_parts [OF assms] by blast
  note e = ext_facts [OF t(2)]
  have stem: "CHR ''.'' \<notin> set stem" "CHR ''/'' \<notin> set stem" "stem \<noteq> []"
    using t(3,4) by (auto simp: charlist_def)
  have "count_list (CHR ''/'' # t) CHR ''.'' = 1"
    using stem(1) e(1) t(1) by (simp add: count_notin)
  then have legal: "\<not> illegal_target (CHR ''/'' # t)"
    using dotdot_two_dots [of "CHR ''/'' # t"] by (auto simp: illegal_target_iff)
  have slash: "CHR ''/'' \<notin> set t" and dash: "CHR ''-'' \<in> set t" and ne: "t \<noteq> []"
    using stem e t by auto
  have last: "last (CHR ''/'' # t) \<noteq> CHR ''l''"
    using e(3,4) t(1) by simp
  have "\<not> regex_search (CHR ''/'' # t) re_file"
    using slash dash by (auto simp: accept_file)
  moreover have "\<not> regex_search (CHR ''/'' # t) re_post" and "\<not> regex_search (CHR ''/'' # t) re_root"
    using dash ne by (auto simp: accept_post accept_root)
  moreover have "\<not> regex_search (CHR ''/'' # t) re_html"
  proof
    assume "regex_search (CHR ''/'' # t) re_html"
    then obtain r where "CHR ''/'' # t = (''/'' @ r) @ ''.html''"
      using ne by (auto simp: accept_html)
    then have "last (CHR ''/'' # t) = CHR ''l''" by (simp only: last_append) simp
    with last show False ..
  qed
  moreover have "regex_search (CHR ''/'' # t) re_token"
    using slash ne by (auto simp: accept_token)
  ultimately show ?thesis using legal by (simp add: find_route_routes)
qed

section \<open>Properties\<close>

text \<open>
  The routing table, first match first, sends a target to the file handler exactly for
  \<^verbatim>\<open>/assets/...\<close> and the two fixed files, to the post handler exactly for
  \<^verbatim>\<open>/post.html\<close>, to the template handler for the root and every other page ending in
  \<^verbatim>\<open>.html\<close>, and to the URL lookup exactly for the remaining single path segments.
\<close>

theorem routes_partition:
  "(find_route routes t = Some HandleFile \<longleftrightarrow>
      (\<exists>r. t = ''/assets/'' @ r \<and> no_breaks r) \<or> t = ''/favicon.ico'' \<or> t = ''/robots.txt'') \<and>
   (find_route routes t = Some HandlePost \<longleftrightarrow> t = ''/post.html'') \<and>
   (find_route routes t = Some HandleGetTemplate \<longleftrightarrow>
      t = ''/'' \<or> (\<exists>r. t = ''/'' @ r @ ''.html'' \<and> no_breaks r) \<and> t \<noteq> ''/post.html'' \<and>
                  \<not> (\<exists>r. t = ''/assets/'' @ r \<and> no_breaks r)) \<and>
   (find_route routes t = Some HandleGetUrl \<longleftrightarrow>
      (\<exists>r. t = ''/'' @ r \<and> r \<noteq> [] \<and> CHR ''/'' \<notin> set r \<and> r \<noteq> ''favicon.ico'' \<and> r \<noteq> ''robots.txt'' \<and>
           \<not> (\<exists>q. r = q @ ''.html'' \<and> no_breaks q)))"
proof (intro conjI)
  show "find_route routes t = Some HandleFile \<longleftrightarrow>
      (\<exists>r. t = ''/assets/'' @ r \<and> no_breaks r) \<or> t = ''/favicon.ico'' \<or> t = ''/robots.txt''"
    unfolding accept_file [symmetric] by (simp add: find_route_routes)
  show "find_route routes t = Some HandlePost \<longleftrightarrow> t = ''/post.html''"
    using post_not_file unfolding accept_post [symmetric] by (auto simp: find_route_routes)
  show "find_route routes t = Some HandleGetTemplate \<longleftrightarrow>
      t = ''/'' \<or> (\<exists>r. t = ''/'' @ r @ ''.html'' \<and> no_breaks r) \<and> t \<noteq> ''/post.html'' \<and>
                  \<not> (\<exists>r. t = ''/assets/'' @ r \<and> no_breaks r)"
    using html_not_fixed [of t] root_not_others [of t]
    unfolding accept_file accept_html accept_post accept_root find_route_routes by auto
  show "find_route routes t = Some HandleGetUrl \<longleftrightarrow>
      (\<exists>r. t = ''/'' @ r \<and> r \<noteq> [] \<and> CHR ''/'' \<notin> set r \<and> r \<noteq> ''favicon.ico'' \<and> r \<noteq> ''robots.txt'' \<and>
           \<not> (\<exists>q. r = q @ ''.html'' \<and> no_breaks q))"
    by (rule url_route)
qed

text \<open>
  C34: Every name the generator can return is served: with a slash before it it passes the
  check for illegal targets and none of the earlier routes (files, the two pages) captures it.
\<close>

theorem token_reaches_lookup:
  assumes "boost_ok b" and "rng_ok r"
  shows "\<exists>t. generate_random_filename b r n = Some (t, Suc n) \<and>
             \<not> illegal_target (CHR ''/'' # t) \<and> find_route routes (CHR ''/'' # t) = Some HandleGetUrl"
  using generate_random_filename_token [OF assms, of n] token_route by blast

theorem token_reaches_lookup_witness:
  "\<exists>t. generate_random_filename boost_ref rng_low 7 = Some (t, Suc 7) \<and>
       \<not> illegal_target (CHR ''/'' # t) \<and> find_route routes (CHR ''/'' # t) = Some HandleGetUrl"
  by (rule token_reaches_lookup) simp_all

end
