(* ===== verification/Parse_Qs.thy ===== *)
theory Parse_Qs
  imports Boost_Strings
begin

text \<open>
  \<^verbatim>\<open>src/parseqs.cpp\<close>: the decoder of query strings, which
  \<^verbatim>\<open>request::handle_post\<close> applies to the body of a form. \<open>unquote\<close> is the loop of the
  source over an index, every read of \<^verbatim>\<open>*i\<close>, \<^verbatim>\<open>i[1]\<close>, \<^verbatim>\<open>i[2]\<close> a checked
  read of the NUL-terminated buffer behind the view (its callers pass a \<^verbatim>\<open>std::string\<close>);
  \<open>pct_decode\<close> is the specification it is shown to compute without reading out of bounds.
\<close>

section \<open>The code\<close>

text \<open>
  The functions of \<^verbatim>\<open><cctype>\<close> take an \<^verbatim>\<open>int\<close> that must be the value of an
  \<^verbatim>\<open>unsigned char\<close> or \<^verbatim>\<open>EOF\<close>; the source passes a plain \<^verbatim>\<open>char\<close>. That
  type is signed on the platforms the program is built for (x86), so a byte from \<^verbatim>\<open>0x80\<close> on
  arrives as a negative number: the call is undefined, except for \<^verbatim>\<open>0xFF\<close>, which is
  \<^verbatim>\<open>EOF\<close> and belongs to no class.
\<close>

definition ctype_arg :: "char \<Rightarrow> bool" where
  "ctype_arg c \<longleftrightarrow> of_char c < (128::nat) \<or> of_char c = (255::nat)"

definition is_digit :: "char \<Rightarrow> bool" where
  "is_digit c = (CHR ''0'' \<le> c \<and> c \<le> CHR ''9'')"

definition std_isdigit :: "char \<Rightarrow> bool res" where
  "std_isdigit c = (if ctype_arg c then Ok (is_digit c) else UB)"

text \<open>\<^verbatim>\<open>std::tolower\<close> in the classic locale.\<close>

definition to_lower :: "char \<Rightarrow> char" where
  "to_lower c = (if CHR ''A'' \<le> c \<and> c \<le> CHR ''Z'' then char_of (of_char c + (32::nat)) else c)"

definition std_tolower :: "char \<Rightarrow> char res" where
  "std_tolower c = (if ctype_arg c then Ok (to_lower c) else UB)"

definition is_hex :: "char \<Rightarrow> bool res" where
  "is_hex c =
     rbind (std_isdigit c) (\<lambda>digit.
       Ok (digit \<or> (c \<ge> CHR ''a'' \<and> c \<le> CHR ''f'') \<or> (c \<ge> CHR ''A'' \<and> c \<le> CHR ''F'')))"

text \<open>The result is a \<^verbatim>\<open>char\<close>, hence taken modulo 256; it is used for its number only.\<close>

definition from_hex :: "char \<Rightarrow> nat res" where
  "from_hex c =
     rbind (std_isdigit c) (\<lambda>digit.
       if digit then Ok (of_char c - of_char CHR ''0'')
       else rbind (std_tolower c) (\<lambda>l. Ok (nat ((of_char l - of_char CHR ''a'' + (10::int)) mod 256))))"

text \<open>
  The bytes an escape \<^verbatim>\<open>%c1c2\<close> adds: one if both are hexadecimal, none otherwise.
  \<^verbatim>\<open>is_hex(i[2])\<close> is not called when \<^verbatim>\<open>is_hex(i[1])\<close> is false.
\<close>

definition unquote_escape :: "char \<Rightarrow> char \<Rightarrow> string res" where
  "unquote_escape c1 c2 =
     rbind (is_hex c1) (\<lambda>h1.
     rbind (if h1 then is_hex c2 else Ok False) (\<lambda>h2.
       if h2 then
         rbind (from_hex c1) (\<lambda>hi. rbind (from_hex c2) (\<lambda>lo. Ok [char_of (or (push_bit 4 hi) lo)]))
       else Ok []))"

definition split_by_eq :: "string \<Rightarrow> string \<times> string" where
  "split_by_eq str =
     (case find_char CHR ''='' str of
        Some pos \<Rightarrow>
          if pos = 0 then ([], str)
          else (take pos str, drop (pos + 1) str)
      | None \<Rightarrow> (str, []))"

function unquote_loop :: "string \<Rightarrow> nat \<Rightarrow> string \<Rightarrow> string res" where
  "unquote_loop str i unquoted =
     (if i = length str then Ok unquoted
      else case str_at str i of
        None \<Rightarrow> UB
      | Some c \<Rightarrow>
          if c = CHR ''%'' then
            (case str_at str (i + 1) of
               None \<Rightarrow> UB
             | Some c1 \<Rightarrow>
                 if c1 = NUL then unquote_loop str (i + 1) unquoted
                 else case str_at str (i + 2) of
                   None \<Rightarrow> UB
                 | Some c2 \<Rightarrow>
                     if c2 = NUL then unquote_loop str (i + 1) unquoted
                     else rbind (unquote_escape c1 c2) (\<lambda>h. unquote_loop str (i + 3) (unquoted @ h)))
          else if c = CHR ''+'' then unquote_loop str (i + 1) (unquoted @ '' '')
          else unquote_loop str (i + 1) (unquoted @ [c]))"
  by pat_completeness auto
termination
  by (relation "measure (\<lambda>(str, i, _). Suc (length str) - i)")
     (auto simp: str_at_def split: if_splits)

declare unquote_loop.simps [simp del]

definition unquote :: "string \<Rightarrow> string res" where
  "unquote str = unquote_loop str 0 []"

fun parse_qsl_loop :: "string list \<Rightarrow> string smap \<Rightarrow> string smap res" where
  "parse_qsl_loop [] qsm = Ok qsm"
| "parse_qsl_loop (kv # qsv) qsm =
     (if kv = [] then parse_qsl_loop qsv qsm
      else let (k0, v0) = split_by_eq kv in
        rbind (unquote k0) (\<lambda>k. rbind (unquote v0) (\<lambda>v. parse_qsl_loop qsv (smap_put k v qsm))))"

definition parse_qsl :: "boost_str \<Rightarrow> string \<Rightarrow> nat \<Rightarrow> string smap res" where
  "parse_qsl b qs maxparams =
     (if count_list qs CHR ''&'' > maxparams then Exn LengthError
      else parse_qsl_loop (bs_split b qs CHR ''&'') [])"

text \<open>The default argument of the declaration in \<^verbatim>\<open>parseqs.hpp\<close>.\<close>

definition default_maxparams :: nat where
  "default_maxparams = 1000"

section \<open>Specification of \<open>unquote\<close>\<close>

text \<open>
  Independent of the code: a string is cut into literal bytes and escapes, and an escape stands for
  the byte whose two digits are looked up in a table.
\<close>

datatype pct_piece = Literal char | Escape char char

fun pct_pieces :: "string \<Rightarrow> pct_piece list" where
  "pct_pieces [] = []"
| "pct_pieces (c # cs) =
     (if c = CHR ''%'' then
        (case cs of
           c1 # c2 # r \<Rightarrow> if c1 \<noteq> NUL \<and> c2 \<noteq> NUL then Escape c1 c2 # pct_pieces r else pct_pieces cs
         | _ \<Rightarrow> pct_pieces cs)
      else Literal c # pct_pieces cs)"

declare pct_pieces.simps(2) [simp del]

definition hex_table :: "(char \<times> nat) list" where
  "hex_table = zip ''0123456789abcdef'' [0..<16] @ zip ''ABCDEF'' [10..<16]"

definition hex_value :: "char \<Rightarrow> nat option" where
  "hex_value c = map_of hex_table c"

fun piece_bytes :: "pct_piece \<Rightarrow> string" where
  "piece_bytes (Literal c) = [if c = CHR ''+'' then CHR '' '' else c]"
| "piece_bytes (Escape c d) =
     (case (hex_value c, hex_value d) of (Some h, Some l) \<Rightarrow> [char_of (16 * h + l)] | _ \<Rightarrow> [])"

definition pct_decode :: "string \<Rightarrow> string" where
  "pct_decode s = concat (map piece_bytes (pct_pieces s))"

text \<open>The escapes whose characters the code may pass to \<^verbatim>\<open>std::isdigit\<close>.\<close>

fun piece_safe :: "pct_piece \<Rightarrow> bool" where
  "piece_safe (Literal c) = True"
| "piece_safe (Escape c d) = (ctype_arg c \<and> (hex_value c \<noteq> None \<longrightarrow> ctype_arg d))"

definition escapes_safe :: "string \<Rightarrow> bool" where
  "escapes_safe s = list_all piece_safe (pct_pieces s)"

lemma pct_pieces_char: "c \<noteq> CHR ''%'' \<Longrightarrow> pct_pieces (c # cs) = Literal c # pct_pieces cs"
  by (simp add: pct_pieces.simps(2))

lemma pct_pieces_pct:
  "pct_pieces (CHR ''%'' # cs) =
     (case cs of
        c1 # c2 # r \<Rightarrow> if c1 \<noteq> NUL \<and> c2 \<noteq> NUL then Escape c1 c2 # pct_pieces r else pct_pieces cs
      | _ \<Rightarrow> pct_pieces cs)"
  by (simp add: pct_pieces.simps(2))

lemma pct_decode_char:
  "c \<noteq> CHR ''%'' \<Longrightarrow> pct_decode (c # cs) = (if c = CHR ''+'' then CHR '' '' else c) # pct_decode cs"
  by (simp add: pct_decode_def pct_pieces_char)

lemma escapes_safe_char: "c \<noteq> CHR ''%'' \<Longrightarrow> escapes_safe (c # cs) = escapes_safe cs"
  by (simp add: escapes_safe_def pct_pieces_char)

text \<open>The code's classification and conversion of a character agree with the table.\<close>

lemma char_range:
  "a \<le> c \<and> c \<le> b \<longleftrightarrow> c \<in> set (map char_of [of_char a..<Suc (of_char b)])"
proof
  assume "a \<le> c \<and> c \<le> b"
  then have "of_char c \<in> set [of_char a..<Suc (of_char b)]" by (auto simp: less_eq_char_def)
  then have "char_of (of_char c :: nat) \<in> set (map char_of [of_char a..<Suc (of_char b)])"
    unfolding set_map by (rule imageI)
  then show "c \<in> set (map char_of [of_char a..<Suc (of_char b)])" by simp
next
  assume "c \<in> set (map char_of [of_char a..<Suc (of_char b)])"
  then obtain n :: nat where n: "c = char_of n" "of_char a \<le> n" "n < Suc (of_char b)" by auto
  have "n < 256" using n(3) nat_of_char_less_256 [of b] by linarith
  then show "a \<le> c \<and> c \<le> b" using n by (simp add: less_eq_char_def)
qed

lemma hex_ranges:
  "map char_of [of_char CHR ''0''..<Suc (of_char CHR ''9'')] = ''0123456789''"
  "map char_of [of_char CHR ''a''..<Suc (of_char CHR ''f'')] = ''abcdef''"
  "map char_of [of_char CHR ''A''..<Suc (of_char CHR ''F'')] = ''ABCDEF''"
  by code_simp+

lemma hex_table_check:
  "list_all (\<lambda>(c, d). from_hex c = Ok d \<and> ctype_arg c \<and> d < 16 \<and> c \<noteq> NUL \<and> c \<noteq> CHR ''&'' \<and> c \<noteq> CHR ''='') hex_table"
  by code_simp

lemma hex_table_keys: "map fst hex_table = ''0123456789'' @ ''abcdef'' @ ''ABCDEF''"
  by code_simp

lemma hex_digit_char:
  "is_hex c = (if ctype_arg c then Ok (hex_value c \<noteq> None) else UB)"
  "hex_value c = Some d \<Longrightarrow>
     from_hex c = Ok d \<and> ctype_arg c \<and> d < 16 \<and> c \<noteq> NUL \<and> c \<noteq> CHR ''&'' \<and> c \<noteq> CHR ''=''"
proof -
  have "hex_value c \<noteq> None \<longleftrightarrow> c \<in> set (map fst hex_table)"
    by (simp add: hex_value_def map_of_eq_None_iff)
  also have "\<dots> \<longleftrightarrow> is_digit c \<or> (c \<ge> CHR ''a'' \<and> c \<le> CHR ''f'') \<or> (c \<ge> CHR ''A'' \<and> c \<le> CHR ''F'')"
    by (simp only: hex_table_keys set_append Un_iff is_digit_def char_range hex_ranges)
  finally show "is_hex c = (if ctype_arg c then Ok (hex_value c \<noteq> None) else UB)"
    by (simp add: is_hex_def std_isdigit_def)
  show "from_hex c = Ok d \<and> ctype_arg c \<and> d < 16 \<and> c \<noteq> NUL \<and> c \<noteq> CHR ''&'' \<and> c \<noteq> CHR ''=''"
    if "hex_value c = Some d"
    using hex_table_check map_of_SomeD [OF that [unfolded hex_value_def]] by (auto simp: list_all_iff)
qed

lemma or_push_bit_4:
  assumes "b < 16"
  shows "or (push_bit 4 a) b = 16 * a + (b::nat)"
proof -
  have b: "b = take_bit 4 b"
    using assms by (simp add: take_bit_nat_eq_self)
  have "and (push_bit 4 a) (take_bit 4 b) = 0"
    by (rule bit_eqI) (auto simp: bit_and_iff bit_push_bit_iff bit_take_bit_iff)
  then have "push_bit 4 a + b = or (push_bit 4 a) b"
    using b by (intro disjunctive_add_eq_or) simp
  then show ?thesis by (simp add: push_bit_eq_mult)
qed

lemma unquote_escape_eq:
  "unquote_escape c d = (if piece_safe (Escape c d) then Ok (piece_bytes (Escape c d)) else UB)"
  by (cases "hex_value c"; cases "hex_value d")
     (auto simp: unquote_escape_def hex_digit_char or_push_bit_4)

lemma str_at_simps [str_simps]:
  "str_at (pre @ c # cs) (length pre) = Some c"
  "str_at (pre @ [c]) (Suc (length pre)) = Some NUL"
  "str_at (pre @ c # d # cs) (Suc (length pre)) = Some d"
  "str_at (pre @ [c, d]) (Suc (Suc (length pre))) = Some NUL"
  "str_at (pre @ c # d # e # cs) (Suc (Suc (length pre))) = Some e"
  by (auto simp: str_at_def nth_append)

text \<open>The loop at the boundary between what it has read and what is left.\<close>

lemma unquote_loop_end: "unquote_loop pre (length pre) out = Ok out"
  by (simp add: unquote_loop.simps)

lemma unquote_loop_char:
  assumes "c \<noteq> CHR ''%''"
  shows "unquote_loop (pre @ c # cs) (length pre) out =
         unquote_loop (pre @ c # cs) (Suc (length pre))
           (out @ [if c = CHR ''+'' then CHR '' '' else c])"
  using assms by (subst unquote_loop.simps) (simp add: str_simps)

lemma unquote_loop_pct:
  "unquote_loop (pre @ CHR ''%'' # cs) (length pre) out =
     (case cs of
        c1 # c2 # r \<Rightarrow>
          if c1 \<noteq> NUL \<and> c2 \<noteq> NUL
          then rbind (unquote_escape c1 c2) (\<lambda>h. unquote_loop (pre @ CHR ''%'' # cs) (length pre + 3) (out @ h))
          else unquote_loop (pre @ CHR ''%'' # cs) (Suc (length pre)) out
      | _ \<Rightarrow> unquote_loop (pre @ CHR ''%'' # cs) (Suc (length pre)) out)"
  by (subst unquote_loop.simps) (simp add: str_simps split: list.splits)

lemma unquote_loop_decodes:
  "unquote_loop (pre @ rest) (length pre) out =
     (if escapes_safe rest then Ok (out @ pct_decode rest) else UB)"
proof (induction rest arbitrary: pre out rule: length_induct)
  case (1 rest)
  have IH: "unquote_loop (pre @ u @ r) (length pre + length u) o' =
      (if escapes_safe r then Ok (o' @ pct_decode r) else UB)"
    if "length r < length rest" for u r o'
    using 1 [rule_format, OF that, of "pre @ u" o'] by simp
  show ?case
  proof (cases rest)
    case Nil
    then show ?thesis by (simp add: unquote_loop_end pct_decode_def escapes_safe_def)
  next
    case (Cons c cs)
    have skip1: "unquote_loop (pre @ c # cs) (Suc (length pre)) o' =
        (if escapes_safe cs then Ok (o' @ pct_decode cs) else UB)" for o'
      using IH [of cs "[c]" o'] Cons by simp
    have skip3: "unquote_loop (pre @ c # cs) (length pre + 3) o' =
        (if escapes_safe r then Ok (o' @ pct_decode r) else UB)"
      if "cs = c1 # c2 # r" for c1 c2 r o'
      using IH [of r "[c, c1, c2]" o'] Cons that by (simp add: numeral_3_eq_3)
    show ?thesis
    proof (cases "c = CHR ''%''")
      case False
      then show ?thesis
        using Cons skip1 by (simp add: unquote_loop_char pct_decode_char escapes_safe_char)
    next
      case True
      with Cons skip1 skip3 show ?thesis
        by (cases cs rule: remdups_adj.cases)
           (simp_all add: unquote_loop_pct pct_decode_def escapes_safe_def pct_pieces_pct unquote_escape_eq
              del: piece_bytes.simps piece_safe.simps)
    qed
  qed
qed

lemma unquote_eq: "unquote str = (if escapes_safe str then Ok (pct_decode str) else UB)"
  using unquote_loop_decodes [of "[]" str "[]"] by (simp add: unquote_def)

section \<open>Percent-encoding, as a client does it\<close>

text \<open>
  What a client may send for a byte: the byte itself unless it has a meaning in the encoding, a
  \<^verbatim>\<open>+\<close> for a space, or its two hexadecimal digits, in either case. An \<open>escaper\<close> chooses one of
  them for every byte. \<open>form_char\<close> is the choice of a browser, the serializer of
  \<^verbatim>\<open>application/x-www-form-urlencoded\<close> of the URL standard; \<open>strict_char\<close> escapes
  everything but letters and digits.
\<close>

definition stands_for :: "string \<Rightarrow> char \<Rightarrow> bool" where
  "stands_for t c \<longleftrightarrow>
     t = [c] \<and> c \<notin> {CHR ''%'', CHR ''+'', CHR ''&'', CHR ''=''} \<or> t = ''+'' \<and> c = CHR '' '' \<or>
     (\<exists>h l. t = [CHR ''%'', h, l] \<and> hex_value h = Some (of_char c div 16) \<and> hex_value l = Some (of_char c mod 16))"

definition escaper :: "(char \<Rightarrow> string) \<Rightarrow> bool" where
  "escaper esc \<longleftrightarrow> (\<forall>c. stands_for (esc c) c)"

definition pct_encode :: "(char \<Rightarrow> string) \<Rightarrow> string \<Rightarrow> string" where
  "pct_encode esc s = concat (map esc s)"

definition hex_digit :: "nat \<Rightarrow> char" where
  "hex_digit d = ''0123456789ABCDEF'' ! d"

definition hex_escape :: "char \<Rightarrow> string" where
  "hex_escape c = [CHR ''%'', hex_digit (of_char c div 16), hex_digit (of_char c mod 16)]"

definition alphanumeric :: "char \<Rightarrow> bool" where
  "alphanumeric c = (is_digit c \<or> (CHR ''a'' \<le> c \<and> c \<le> CHR ''z'') \<or> (CHR ''A'' \<le> c \<and> c \<le> CHR ''Z''))"

definition strict_char :: "char \<Rightarrow> string" where
  "strict_char c = (if alphanumeric c then [c] else hex_escape c)"

definition form_char :: "char \<Rightarrow> string" where
  "form_char c =
     (if alphanumeric c \<or> c \<in> {CHR ''*'', CHR ''-'', CHR ''.'', CHR ''_''} then [c]
      else if c = CHR '' '' then ''+'' else hex_escape c)"

lemma hex_digit_table: "list_all (\<lambda>d. hex_value (hex_digit d) = Some d) [0..<16]"
  by code_simp

lemma hex_escape_stands: "stands_for (hex_escape c) c"
proof -
  have "of_char c div 16 < (16::nat)"
    using nat_of_char_less_256 [of c] by (simp add: div_less_iff_less_mult)
  moreover have "hex_value (hex_digit d) = Some d" if "d < 16" for d
    using hex_digit_table that by (simp add: list_all_iff)
  ultimately show ?thesis by (simp add: stands_for_def hex_escape_def)
qed

lemma alphanumeric_plain: "alphanumeric c \<Longrightarrow> c \<notin> {CHR ''%'', CHR ''+'', CHR ''&'', CHR ''=''}"
  by (auto simp: alphanumeric_def is_digit_def less_eq_char_def)

lemma escapers [simp]: "escaper strict_char" "escaper form_char"
  using hex_escape_stands alphanumeric_plain
  by (auto simp: escaper_def strict_char_def form_char_def) (auto simp: stands_for_def)

lemma stands_for_decodes:
  assumes "stands_for t c"
  shows "pct_decode (t @ s) = c # pct_decode s \<and> escapes_safe (t @ s) = escapes_safe s \<and>
         set t \<inter> {CHR ''&'', CHR ''=''} = {}"
proof -
  consider (bare) "t = [c]" "c \<notin> {CHR ''%'', CHR ''+'', CHR ''&'', CHR ''=''}" | (plus) "t = ''+''" "c = CHR '' ''"
    | (hex) h l where "t = [CHR ''%'', h, l]" "hex_value h = Some (of_char c div 16)" "hex_value l = Some (of_char c mod 16)"
    using assms unfolding stands_for_def by blast
  then show ?thesis
  proof cases
    case hex
    note hl = hex_digit_char(2) [OF hex(2)] hex_digit_char(2) [OF hex(3)]
    have "(16::nat) * (of_char c div 16) + of_char c mod 16 = of_char c" by simp
    then have "char_of (16 * (of_char c div 16) + of_char c mod 16 :: nat) = c" by (simp only: char_of_char)
    then show ?thesis
      using hex hl by (simp add: pct_decode_def escapes_safe_def pct_pieces_pct)
  qed (simp_all add: pct_decode_char escapes_safe_char)
qed

lemma pct_decode_encode:
  assumes "escaper esc"
  shows "pct_decode (pct_encode esc s @ t) = s @ pct_decode t"
    and "escapes_safe (pct_encode esc s @ t) = escapes_safe t"
    and "set (pct_encode esc s) \<inter> {CHR ''&'', CHR ''=''} = {}"
proof -
  have c: "stands_for (esc c) c" for c using assms by (simp add: escaper_def)
  show "pct_decode (pct_encode esc s @ t) = s @ pct_decode t"
    by (induction s) (simp_all add: pct_encode_def stands_for_decodes [OF c])
  show "escapes_safe (pct_encode esc s @ t) = escapes_safe t"
    by (induction s) (simp_all add: pct_encode_def stands_for_decodes [OF c])
  show "set (pct_encode esc s) \<inter> {CHR ''&'', CHR ''=''} = {}"
    unfolding pct_encode_def using stands_for_decodes [OF c] by fastforce
qed

lemma decode_encoded [simp]:
  "pct_decode [] = []" "escapes_safe []"
  "escaper esc \<Longrightarrow> pct_decode (pct_encode esc s) = s"
  "escaper esc \<Longrightarrow> escapes_safe (pct_encode esc s)"
  using pct_decode_encode(1,2) [of esc s "[]"] by (simp_all add: pct_decode_def escapes_safe_def)

text \<open>Any escaper of a client makes an interface of encoded fields, and a browser's is one.\<close>

locale form_client =
  fixes esc :: "char \<Rightarrow> string"
  assumes esc: "escaper esc"

sublocale form_client \<subseteq> field_codec "pct_encode esc" "\<lambda>s. ok_or [] (unquote s)" "CHR ''&''"
proof unfold_locales
  show "ok_or [] (unquote (pct_encode esc s)) = s" for s
    using esc by (simp add: unquote_eq)
  show "CHR ''&'' \<notin> set (pct_encode esc s)" for s
    using pct_decode_encode(3) [OF esc] by auto
qed

interpretation browser: form_client form_char
  by unfold_locales simp

section \<open>The whole query string\<close>

definition decode_pair :: "string \<Rightarrow> string \<times> string" where
  "decode_pair kv = (let (k, v) = split_by_eq kv in (pct_decode k, pct_decode v))"

definition put_all :: "(string \<times> 'v) list \<Rightarrow> 'v smap" where
  "put_all kvs = foldl (\<lambda>m (k, v). smap_put k v m) [] kvs"

lemma smap_get_put_all: "smap_get (put_all kvs) = map_of (rev kvs)"
  by (simp add: put_all_def smap_get_foldl_put)

definition pair_safe :: "string \<Rightarrow> bool" where
  "pair_safe kv = (let (k, v) = split_by_eq kv in escapes_safe k \<and> escapes_safe v)"

definition form_fields :: "string \<Rightarrow> string list" where
  "form_fields qs = filter (\<lambda>t. t \<noteq> []) (split_on CHR ''&'' qs)"

definition form_safe :: "string \<Rightarrow> bool" where
  "form_safe qs = list_all pair_safe (form_fields qs)"

lemma parse_qsl_loop_eq:
  "parse_qsl_loop ts m =
     (let fs = filter (\<lambda>t. t \<noteq> []) ts in
      if list_all pair_safe fs
      then Ok (foldl (\<lambda>m (k, v). smap_put k v m) m (map decode_pair fs)) else UB)"
  by (induction ts arbitrary: m)
     (auto simp: unquote_eq decode_pair_def pair_safe_def Let_def split: prod.splits)

lemma parse_qsl_eq:
  assumes "boost_ok b"
  shows "parse_qsl b qs maxparams =
     (if count_list qs CHR ''&'' > maxparams then Exn LengthError
      else if form_safe qs then Ok (put_all (map decode_pair (form_fields qs))) else UB)"
  using assms
  by (simp add: parse_qsl_def bs_split_eq parse_qsl_loop_eq put_all_def form_safe_def form_fields_def Let_def)

definition encode_pair :: "(char \<Rightarrow> string) \<Rightarrow> string \<times> string \<Rightarrow> string" where
  "encode_pair esc kv = pct_encode esc (fst kv) @ ''='' @ pct_encode esc (snd kv)"

definition encode_form :: "(char \<Rightarrow> string) \<Rightarrow> (string \<times> string) list \<Rightarrow> string" where
  "encode_form esc kvs = intercalate ''&'' (map (encode_pair esc) kvs)"

lemma encode_pair_parts:
  assumes esc: "escaper esc" and ne: "fst kv \<noteq> []"
  shows "decode_pair (encode_pair esc kv) = kv" and "pair_safe (encode_pair esc kv)"
proof -
  have "CHR ''='' \<notin> set (pct_encode esc (fst kv))"
    using pct_decode_encode(3) [OF esc] by auto
  moreover have "pct_encode esc (fst kv) \<noteq> []"
    using decode_encoded(3) [OF esc, of "fst kv"] ne by force
  ultimately have "split_by_eq (encode_pair esc kv) = (pct_encode esc (fst kv), pct_encode esc (snd kv))"
    by (simp add: split_by_eq_def encode_pair_def find_char_append)
  then show "decode_pair (encode_pair esc kv) = kv" "pair_safe (encode_pair esc kv)"
    using esc by (simp_all add: decode_pair_def pair_safe_def)
qed

lemma split_encode_form:
  assumes "escaper esc" and "kvs \<noteq> []"
  shows "split_on CHR ''&'' (encode_form esc kvs) = map (encode_pair esc) kvs"
  unfolding encode_form_def
  using assms(2) pct_decode_encode(3) [OF assms(1)]
  by (intro split_on_intercalate) (auto simp: encode_pair_def)

lemma encode_form_fields:
  assumes "escaper esc" and "\<forall>kv\<in>set kvs. fst kv \<noteq> []"
  shows "form_fields (encode_form esc kvs) = map (encode_pair esc) kvs"
proof (cases "kvs = []")
  case False
  have "encode_pair esc kv \<noteq> []" for kv by (simp add: encode_pair_def)
  with split_encode_form [OF assms(1) False] show ?thesis by (simp add: form_fields_def filter_map o_def)
qed (simp add: form_fields_def encode_form_def)

lemma parse_encode_form:
  assumes esc: "escaper esc" and b: "boost_ok b" and ne: "kvs \<noteq> []" "\<forall>kv\<in>set kvs. fst kv \<noteq> []"
    and max: "length kvs \<le> Suc maxparams"
  shows "\<exists>m. parse_qsl b (encode_form esc kvs) maxparams = Ok m \<and> smap_get m = map_of (rev kvs)"
proof -
  note fs = encode_form_fields [OF esc ne(2)]
  have "count_list (encode_form esc kvs) CHR ''&'' \<le> maxparams"
    using max split_encode_form [OF esc ne(1)] by (metis Suc_le_mono length_map length_split_on)
  moreover have "form_safe (encode_form esc kvs)"
    using ne(2) encode_pair_parts(2) [OF esc] by (simp add: form_safe_def fs list_all_iff)
  moreover have "map decode_pair (form_fields (encode_form esc kvs)) = kvs"
    using ne(2) encode_pair_parts(1) [OF esc] by (simp add: fs o_def map_idI)
  ultimately show ?thesis
    using b by (simp add: parse_qsl_eq smap_get_put_all)
qed

section \<open>Properties\<close>

text \<open>
  C32: \<open>unquote\<close> on every byte string, exactly: it returns the percent-decoding \<open>pct_decode\<close>
  (escapes that are not hexadecimal are dropped, a \<open>%\<close> too close to the end loses only
  itself) unless an escape holds a byte that \<^verbatim>\<open>std::isdigit\<close> must not be given, when its
  behaviour is undefined. So no read of \<^verbatim>\<open>i[1]\<close> or \<^verbatim>\<open>i[2]\<close> leaves the NUL-terminated
  buffer, the loop ends, and nothing is thrown.
\<close>

theorem unquote_safe_and_decodes:
  "unquote str = (if escapes_safe str then Ok (pct_decode str) else UB)"
  by (rule unquote_eq)

text \<open>
  Decoding inverts percent-encoding: whatever bytes a client encodes, \<open>unquote\<close> returns them.
\<close>

theorem unquote_pct_encode: "unquote (pct_encode form_char s) = Ok s"
  by (simp add: unquote_eq)

text \<open>
  C31: A form survives the trip: the fields a client encodes as
  \<^verbatim>\<open>k=v&k=v&...\<close> (keys not empty, at most \<open>maxparams + 1\<close> of them, every byte in any of
  its encodings) are the ones \<open>parse_qsl\<close> stores, the last value of a repeated key winning.
\<close>

theorem parse_qsl_roundtrip:
  assumes "escaper esc" and "boost_ok b" and "kvs \<noteq> []" and "\<forall>kv\<in>set kvs. fst kv \<noteq> []"
    and "length kvs \<le> Suc maxparams"
  shows "\<exists>m. parse_qsl b (encode_form esc kvs) maxparams = Ok m \<and> smap_get m = map_of (rev kvs)"
  by (rule parse_encode_form [OF assms])

theorem parse_qsl_roundtrip_witness:
  "\<exists>m. parse_qsl boost_ref (encode_form form_char [(''url'', ''http://a.b/?x=1&y=%'')]) 1000 = Ok m \<and>
       smap_get m = map_of (rev [(''url'', ''http://a.b/?x=1&y=%'')])"
  by (rule parse_qsl_roundtrip) simp_all

text \<open>
  The guard against floods of parameters: \<open>parse_qsl\<close> throws exactly when the input has
  more than \<open>maxparams\<close> separators, its behaviour is undefined exactly when a field within the
  limit has an unsafe escape, and what it returns has at most \<open>maxparams + 1\<close> entries.
\<close>

theorem parse_qsl_limit:
  assumes "boost_ok b"
  shows "(parse_qsl b qs maxparams = Exn LengthError \<longleftrightarrow> maxparams < count_list qs CHR ''&'') \<and>
         (parse_qsl b qs maxparams = UB \<longleftrightarrow> count_list qs CHR ''&'' \<le> maxparams \<and> \<not> form_safe qs) \<and>
         (\<forall>m. parse_qsl b qs maxparams = Ok m \<longrightarrow> length m \<le> Suc maxparams)"
proof -
  have "length (put_all (map decode_pair (form_fields qs))) \<le> Suc (count_list qs CHR ''&'')"
    using length_smap_foldl [of "[]" "map decode_pair (form_fields qs)"]
      length_filter_le [of "\<lambda>t. t \<noteq> []" "split_on CHR ''&'' qs"]
    by (simp add: put_all_def form_fields_def length_split_on)
  then show ?thesis using assms by (simp add: parse_qsl_eq)
qed

theorem parse_qsl_limit_witness:
  "parse_qsl boost_ref ''a&b'' 0 = Exn LengthError \<and> parse_qsl boost_ref ''a&b'' 1 \<noteq> Exn LengthError"
  using parse_qsl_limit [OF boost_ref_ok, of "''a&b''" 0] parse_qsl_limit [OF boost_ref_ok, of "''a&b''" 1]
  by simp

text \<open>
  A field that starts with \<^verbatim>\<open>=\<close> is stored under the empty key with the sign as part of
  its value, although the comment in the source says that only a value was found.
\<close>

lemma parse_qsl_leading_eq:
  assumes "boost_ok b" and "CHR ''&'' \<notin> set v" and "escapes_safe v"
  shows "parse_qsl b (CHR ''='' # v) maxparams = Ok [([], CHR ''='' # pct_decode v)]"
  using assms
  by (simp add: parse_qsl_eq form_safe_def form_fields_def split_on_free decode_pair_def pair_safe_def
      split_by_eq_def put_all_def pct_decode_char escapes_safe_char count_notin)

end
