(* ===== verification/Multipart.thy ===== *)
theory Multipart
  imports Boost_Strings
begin

text \<open>
  \<^verbatim>\<open>src/multipart_wrapper.cpp\<close> and its header: the parser of a header's parameters
  (\<^verbatim>\<open>parse_header_value\<close>) and the object \<^verbatim>\<open>MultiPartData\<close> whose callbacks the
  C library \<^verbatim>\<open>multipart_parser\<close> calls. The library is a submodule that is not part of the
  repository: it is a parameter that says which callbacks it calls, with which bytes, for a
  boundary and a body. The callbacks are the repository's and are modelled as state updates.
\<close>

section \<open>Header values\<close>

text \<open>\<^verbatim>\<open>header_params_value_type\<close> and \<^verbatim>\<open>header_type\<close>, two \<^verbatim>\<open>std::variant\<close>s.\<close>

datatype param_value = Standalone | PStr string

type_synonym header_params = "param_value smap"

datatype header = HStr string | HParams header_params

type_synonym header_map = "header smap"

text \<open>
  \<^verbatim>\<open>ss >> std::quoted(v)\<close> on a stream whose first character is a quote: up to the
  closing quote or the end of the stream, a backslash taking the next character as it is.
\<close>

fun quoted_body :: "string \<Rightarrow> string" where
  "quoted_body [] = []"
| "quoted_body (c # cs) =
     (if c = CHR 0x5C then (case cs of [] \<Rightarrow> [] | d # ds \<Rightarrow> d # quoted_body ds)
      else if c = CHR 0x22 then []
      else c # quoted_body cs)"

text \<open>\<^verbatim>\<open>v[0]\<close> of an empty \<^verbatim>\<open>std::string\<close> is the terminator.\<close>

definition header_param_value :: "string \<Rightarrow> string" where
  "header_param_value v =
     (case str_at v 0 of
        Some c \<Rightarrow> if c = CHR 0x22 then quoted_body (drop 1 v) else v
      | None \<Rightarrow> v)"

fun parse_header_tokens :: "boost_str \<Rightarrow> string list \<Rightarrow> header_params \<Rightarrow> header_params" where
  "parse_header_tokens b [] data = data"
| "parse_header_tokens b (token0 # tokens) data =
     (let token = bs_trim_left b token0 in
      case find_char CHR ''='' token of
        Some pos \<Rightarrow>
          parse_header_tokens b tokens
            (smap_put (take pos token) (PStr (header_param_value (drop (pos + 1) token))) data)
      | None \<Rightarrow> parse_header_tokens b tokens (smap_put token Standalone data))"

definition parse_header_value :: "boost_str \<Rightarrow> string \<Rightarrow> header" where
  "parse_header_value b header =
     (let data = parse_header_tokens b (bs_split b header CHR '';'') []
      in if data = [] then HStr [] else HParams data)"

section \<open>Sections and the callbacks\<close>

record multipart_section =
  sec_headers :: header_map
  sec_data :: string

record multipart_data =
  mp_boundary :: string
  mp_data :: "multipart_section list"
  cur_header_vals :: header_map
  cur_header_name :: string

text \<open>A section as the callbacks make it, and what it gives back.\<close>

definition MultiPartSection :: "header_map \<Rightarrow> string \<Rightarrow> multipart_section" where
  "MultiPartSection headers data = \<lparr>sec_headers = headers, sec_data = data\<rparr>"

definition get_headers :: "multipart_section \<Rightarrow> header_map" where
  "get_headers s = sec_headers s"

definition get_section_data :: "multipart_section \<Rightarrow> string" where
  "get_section_data s = sec_data s"

lemmas section_defs [simp] = MultiPartSection_def get_headers_def get_section_data_def

text \<open>The constructor: the parser object it also creates is the library's.\<close>

definition MultiPartData :: "string \<Rightarrow> multipart_data" where
  "MultiPartData boundary =
     \<lparr>mp_boundary = boundary, mp_data = [], cur_header_vals = [], cur_header_name = []\<rparr>"

definition read_header_name :: "string \<Rightarrow> multipart_data \<Rightarrow> multipart_data" where
  "read_header_name at mp = mp\<lparr>cur_header_name := at\<rparr>"

definition read_header_value :: "boost_str \<Rightarrow> string \<Rightarrow> multipart_data \<Rightarrow> multipart_data" where
  "read_header_value b at mp =
     mp\<lparr>cur_header_vals :=
          smap_put (cur_header_name mp) (parse_header_value b at) (cur_header_vals mp)\<rparr>"

definition read_body :: "string \<Rightarrow> multipart_data \<Rightarrow> multipart_data" where
  "read_body at mp =
     mp\<lparr>mp_data := mp_data mp @ [MultiPartSection (cur_header_vals mp) at],
        cur_header_vals := []\<rparr>"

text \<open>The callbacks the constructor registers, as the library calls them.\<close>

datatype mp_event = OnHeaderField string | OnHeaderValue string | OnPartData string

type_synonym mp_parser = "string \<Rightarrow> string \<Rightarrow> mp_event list"   \<comment> \<open>boundary, body\<close>

fun on_event :: "boost_str \<Rightarrow> mp_event \<Rightarrow> multipart_data \<Rightarrow> multipart_data" where
  "on_event b (OnHeaderField at) mp = read_header_name at mp"
| "on_event b (OnHeaderValue at) mp = read_header_value b at mp"
| "on_event b (OnPartData at) mp = read_body at mp"

definition run_events :: "boost_str \<Rightarrow> mp_event list \<Rightarrow> multipart_data \<Rightarrow> multipart_data" where
  "run_events b es mp = fold (on_event b) es mp"

text \<open>
  \<^verbatim>\<open>multipart_parser_init\<close> takes the boundary as a C string,
  \<^verbatim>\<open>multipart_parser_execute\<close> the body with its length.
\<close>

definition ingest :: "boost_str \<Rightarrow> mp_parser \<Rightarrow> string \<Rightarrow> multipart_data \<Rightarrow> multipart_data" where
  "ingest b parser body mp = run_events b (parser (cstr (mp_boundary mp)) body) mp"

definition get_data :: "multipart_data \<Rightarrow> multipart_section list" where
  "get_data mp = mp_data mp"

section \<open>Quoted strings\<close>

definition quote_char :: "char \<Rightarrow> string" where
  "quote_char c = (if c = CHR 0x22 \<or> c = CHR 0x5C then [CHR 0x5C, c] else [c])"

definition quote_body :: "string \<Rightarrow> string" where
  "quote_body s = concat (map quote_char s)"

lemma quoted_body_quote: "quoted_body (quote_body s @ CHR 0x22 # r) = s"
  by (induction s) (auto simp: quote_body_def quote_char_def)

lemma quoted_body_open: "quoted_body (quote_body s) = s"
  by (induction s) (auto simp: quote_body_def quote_char_def)

interpretation quoted: codec "\<lambda>s. CHR 0x22 # quote_body s @ [CHR 0x22]" header_param_value
  by unfold_locales (simp add: header_param_value_def str_at_def quoted_body_quote)

section \<open>Parameters of a header\<close>

definition header_param :: "boost_str \<Rightarrow> string \<Rightarrow> string \<times> param_value" where
  "header_param b token0 =
     (let token = bs_trim_left b token0 in
      case find_char CHR ''='' token of
        Some pos \<Rightarrow> (take pos token, PStr (header_param_value (drop (pos + 1) token)))
      | None \<Rightarrow> (token, Standalone))"

lemma parse_header_tokens_eq:
  "parse_header_tokens b ts data = foldl (\<lambda>m (k, v). smap_put k v m) data (map (header_param b) ts)"
  by (induction ts arbitrary: data) (auto simp: header_param_def Let_def split: option.splits)

lemma foldl_put_nonempty: "kvs \<noteq> [] \<Longrightarrow> foldl (\<lambda>m (k, v). smap_put k v m) m kvs \<noteq> []"
  by (induction kvs rule: rev_induct) (auto split: prod.splits)

lemma parse_header_value_eq:
  assumes "boost_ok b"
  shows "parse_header_value b h =
    HParams (foldl (\<lambda>m (k, v). smap_put k v m) [] (map (header_param b) (split_on CHR '';'' h)))"
proof -
  have "bs_split b h CHR '';'' = split_on CHR '';'' h"
    using assms by (rule bs_split_eq)
  then show ?thesis
    using foldl_put_nonempty [of "map (header_param b) (split_on CHR '';'' h)" "[]"]
    by (simp add: parse_header_value_def parse_header_tokens_eq Let_def)
qed

text \<open>A parameter as a client writes it: \<^verbatim>\<open>k="v"\<close> with the value quoted, or a bare word.\<close>

fun render_param :: "string \<times> param_value \<Rightarrow> string" where
  "render_param (k, PStr v) = k @ [CHR ''='', CHR 0x22] @ quote_body v @ [CHR 0x22]"
| "render_param (k, Standalone) = k"

definition param_ok :: "string \<times> param_value \<Rightarrow> bool" where
  "param_ok kv \<longleftrightarrow> fst kv \<noteq> [] \<and> \<not> is_space (hd (fst kv)) \<and>
     set (fst kv) \<inter> {CHR ''='', CHR '';''} = {} \<and>
     (\<forall>v. snd kv = PStr v \<longrightarrow> CHR '';'' \<notin> set v)"

text \<open>The parameters with \<^verbatim>\<open>"; "\<close> between them.\<close>

definition render_header :: "(string \<times> param_value) list \<Rightarrow> string" where
  "render_header kvs = intercalate '';''
     (case kvs of [] \<Rightarrow> [] | kv # kvs' \<Rightarrow> render_param kv # map (\<lambda>x. CHR '' '' # render_param x) kvs')"

lemma set_quote_body: "c \<in> set (quote_body v) \<Longrightarrow> c \<in> set v \<or> c = CHR 0x5C"
  by (auto simp: quote_body_def quote_char_def split: if_splits)

lemma render_param_sep_free: "param_ok kv \<Longrightarrow> CHR '';'' \<notin> set (render_param kv)"
  by (cases kv; cases "snd kv") (auto simp: param_ok_def dest: set_quote_body)

lemma header_param_render:
  assumes "boost_ok b" and "param_ok kv" and "\<forall>c\<in>set sp. is_space c"
  shows "header_param b (sp @ render_param kv) = kv"
proof -
  obtain k v where kv: "kv = (k, v)" by (cases kv)
  have k: "k \<noteq> []" "\<not> is_space (hd k)" "CHR ''='' \<notin> set k"
    using assms(2) by (auto simp: param_ok_def kv)
  have drop_sp: "dropWhile is_space (sp @ k @ r) = k @ r" for r
    using k(1,2) assms(3) by (cases k) (simp_all add: dropWhile_append2)
  show ?thesis
  proof (cases v)
    case Standalone
    have "bs_trim_left b (sp @ render_param kv) = k"
      using drop_sp [of "[]"] assms(1) by (simp add: kv Standalone bs_trim_left_eq)
    moreover have "find_char CHR ''='' k = None"
      using k(3) by (simp add: find_char_None)
    ultimately show ?thesis by (simp add: header_param_def kv Standalone)
  next
    case (PStr s)
    have "bs_trim_left b (sp @ render_param kv) = k @ CHR ''='' # CHR 0x22 # quote_body s @ [CHR 0x22]"
      using drop_sp [of "CHR ''='' # CHR 0x22 # quote_body s @ [CHR 0x22]"] assms(1)
      by (simp add: kv PStr bs_trim_left_eq)
    then show ?thesis
      using quoted.dec_enc [of s] k(3) by (simp add: header_param_def kv PStr find_char_append)
  qed
qed

lemma map_header_param_render:
  assumes "boost_ok b" and "kvs \<noteq> []" and "\<forall>kv\<in>set kvs. param_ok kv"
  shows "map (header_param b) (split_on CHR '';'' (render_header kvs)) = kvs"
proof -
  obtain kv kvs' where kvs: "kvs = kv # kvs'"
    using assms(2) by (cases kvs) auto
  have "split_on CHR '';'' (render_header kvs) =
        render_param kv # map (\<lambda>x. CHR '' '' # render_param x) kvs'"
    unfolding render_header_def kvs list.case
    using assms(3) kvs by (intro split_on_intercalate) (auto simp: render_param_sep_free)
  moreover have "header_param b (CHR '' '' # render_param x) = x" if "param_ok x" for x
    using header_param_render [OF assms(1) that, of "'' ''"] by (simp add: is_space_def)
  moreover have "header_param b (render_param kv) = kv"
    using header_param_render [OF assms(1), of kv "[]"] assms(3) kvs by simp
  ultimately show ?thesis
    using assms(3) kvs by (simp add: map_idI o_def)
qed

section \<open>Parts\<close>

text \<open>The events of one part: its header fields and values in turn, then its data.\<close>

definition part_events :: "(string \<times> string) list \<Rightarrow> string \<Rightarrow> mp_event list" where
  "part_events hs d = concat (map (\<lambda>(n, v). [OnHeaderField n, OnHeaderValue v]) hs) @ [OnPartData d]"

definition part_headers :: "boost_str \<Rightarrow> (string \<times> string) list \<Rightarrow> header_map \<Rightarrow> header_map" where
  "part_headers b hs m = foldl (\<lambda>m (n, v). smap_put n (parse_header_value b v) m) m hs"

lemmas callback_defs = read_header_name_def read_header_value_def read_body_def

lemma run_events_append: "run_events b (es @ fs) mp = run_events b fs (run_events b es mp)"
  by (simp add: run_events_def)

lemma run_headers:
  "mp_data (run_events b (concat (map (\<lambda>(n, v). [OnHeaderField n, OnHeaderValue v]) hs)) mp) = mp_data mp \<and>
   cur_header_vals (run_events b (concat (map (\<lambda>(n, v). [OnHeaderField n, OnHeaderValue v]) hs)) mp) =
     part_headers b hs (cur_header_vals mp)"
proof (induction hs arbitrary: mp)
  case Nil
  then show ?case by (simp add: run_events_def part_headers_def)
next
  case (Cons h hs)
  obtain n v where "h = (n, v)" by (cases h)
  then show ?case
    using Cons [of "read_header_value b v (read_header_name n mp)"]
    by (simp add: run_events_def part_headers_def callback_defs)
qed

lemma run_part:
  "mp_data (run_events b (part_events hs d) mp) =
     mp_data mp @ [\<lparr>sec_headers = part_headers b hs (cur_header_vals mp), sec_data = d\<rparr>] \<and>
   cur_header_vals (run_events b (part_events hs d) mp) = []"
  using run_headers [of b hs mp]
  by (simp add: part_events_def run_events_append) (simp add: run_events_def read_body_def)

lemma run_parts:
  assumes "cur_header_vals mp = []"
  shows "mp_data (run_events b (concat (map (\<lambda>(hs, d). part_events hs d) ps)) mp) =
         mp_data mp @ map (\<lambda>(hs, d). \<lparr>sec_headers = part_headers b hs [], sec_data = d\<rparr>) ps"
  using assms
proof (induction ps arbitrary: mp)
  case Nil
  then show ?case by (simp add: run_events_def)
next
  case (Cons p ps)
  obtain hs d where "p = (hs, d)" by (cases p)
  then show ?case
    using Cons run_part [of b hs d mp] by (simp add: run_events_append)
qed

lemma parse_rendered:
  assumes "boost_ok b" and "kvs \<noteq> []" and "\<forall>kv\<in>set kvs. param_ok kv"
  shows "\<exists>m. parse_header_value b (render_header kvs) = HParams m \<and> smap_get m = map_of (rev kvs)"
  using assms by (simp add: parse_header_value_eq map_header_param_render smap_get_foldl_put)

lemma sections_of_parts:
  assumes "parser (cstr boundary) body = concat (map (\<lambda>(hs, d). part_events hs d) ps)"
  shows "get_data (ingest b parser body (MultiPartData boundary)) =
         map (\<lambda>(hs, d). \<lparr>sec_headers = part_headers b hs [], sec_data = d\<rparr>) ps"
  using assms by (simp add: ingest_def get_data_def MultiPartData_def run_parts)

text \<open>Parts whose data the library reports in several pieces: every piece is a section.\<close>

definition chunked_events :: "(string \<times> string) list \<times> string \<times> string list \<Rightarrow> mp_event list" where
  "chunked_events = (\<lambda>(hs, d, ds). part_events hs d @ map OnPartData ds)"

lemma run_pieces:
  assumes "cur_header_vals mp = []"
  shows "mp_data (run_events b (map OnPartData ds) mp) =
           mp_data mp @ map (\<lambda>d. \<lparr>sec_headers = [], sec_data = d\<rparr>) ds \<and>
         cur_header_vals (run_events b (map OnPartData ds) mp) = []"
  using assms
proof (induction ds arbitrary: mp)
  case (Cons d ds)
  then show ?case using Cons.IH [of "read_body d mp"] by (simp add: run_events_def read_body_def)
qed (simp add: run_events_def)

lemma run_chunked:
  assumes "cur_header_vals mp = []"
  shows "mp_data (run_events b (concat (map chunked_events ps)) mp) =
         mp_data mp @ concat (map (\<lambda>(hs, d, ds). \<lparr>sec_headers = part_headers b hs [], sec_data = d\<rparr> #
           map (\<lambda>d. \<lparr>sec_headers = [], sec_data = d\<rparr>) ds) ps)"
  using assms
proof (induction ps arbitrary: mp)
  case (Cons p ps)
  obtain hs d ds where "p = (hs, d, ds)" by (cases p)
  then show ?case
    using Cons run_part [of b hs d mp] run_pieces [of "run_events b (part_events hs d) mp" b ds]
    by (simp add: run_events_append chunked_events_def)
qed (simp add: run_events_def)

lemma sections_of_chunks:
  assumes "parser (cstr boundary) body = concat (map chunked_events ps)"
  shows "get_data (ingest b parser body (MultiPartData boundary)) =
         concat (map (\<lambda>(hs, d, ds). \<lparr>sec_headers = part_headers b hs [], sec_data = d\<rparr> #
           map (\<lambda>d. \<lparr>sec_headers = [], sec_data = d\<rparr>) ds) ps)"
  using assms by (simp add: ingest_def get_data_def MultiPartData_def run_chunked)

section \<open>Properties\<close>

text \<open>
  A header value always parses to a map of parameters with at least one entry: splitting
  yields a token even for an empty header, so the string alternative of
  \<^verbatim>\<open>header_type\<close> is never returned and the tests for it after a parse never succeed.
\<close>

theorem parse_header_value_params:
  assumes "boost_ok b"
  shows "\<exists>m. parse_header_value b h = HParams m \<and> m \<noteq> []"
  using assms foldl_put_nonempty [of "map (header_param b) (split_on CHR '';'' h)" "[]"]
  by (simp add: parse_header_value_eq)

theorem parse_header_value_params_witness:
  "\<exists>m. parse_header_value boost_ref [] = HParams m \<and> m \<noteq> []"
  by (rule parse_header_value_params) simp

text \<open>
  A header a client renders, bare words and quoted values (any bytes but the separator,
  quotes and backslashes escaped) with \<^verbatim>\<open>"; "\<close> between them, parses back to its
  parameters.
\<close>

theorem parse_header_value_roundtrip:
  assumes "boost_ok b" and "kvs \<noteq> []" and "\<forall>kv\<in>set kvs. param_ok kv"
  shows "\<exists>m. parse_header_value b (render_header kvs) = HParams m \<and> smap_get m = map_of (rev kvs)"
  by (rule parse_rendered [OF assms])

theorem parse_header_value_roundtrip_witness:
  "\<exists>m. parse_header_value boost_ref (render_header [(''form-data'', Standalone), (''name'', PStr ''url'')]) =
         HParams m \<and> smap_get m = map_of (rev [(''form-data'', Standalone), (''name'', PStr ''url'')])"
  by (rule parse_header_value_roundtrip) (simp_all add: param_ok_def is_space_def)

text \<open>
  When the library reports each part as its headers followed by one piece of data, the
  sections are the parts, in order, each with its own headers and data only.
\<close>

theorem ingest_sections:
  assumes "parser (cstr boundary) body = concat (map (\<lambda>(hs, d). part_events hs d) ps)"
  shows "get_data (ingest b parser body (MultiPartData boundary)) =
         map (\<lambda>(hs, d). \<lparr>sec_headers = part_headers b hs [], sec_data = d\<rparr>) ps"
  using assms by (rule sections_of_parts)

theorem ingest_sections_witness:
  "get_data (ingest boost_ref (\<lambda>_ _. part_events [(''A'', ''x'')] ''1'' @ part_events [] ''2'') ''body''
     (MultiPartData ''sep'')) =
   map (\<lambda>(hs, d). \<lparr>sec_headers = part_headers boost_ref hs [], sec_data = d\<rparr>)
     [([(''A'', ''x'')], ''1''), ([], ''2'')]"
  by (rule ingest_sections) simp

text \<open>
  A part whose data the library delivers in two pieces becomes two sections, the second without
  headers; a part without data leaves its headers to the next one.
\<close>

lemma split_data_loses_headers:
  "mp_data (run_events b (part_events hs d1 @ [OnPartData d2]) (MultiPartData bd)) =
     [\<lparr>sec_headers = part_headers b hs [], sec_data = d1\<rparr>, \<lparr>sec_headers = [], sec_data = d2\<rparr>]"
  using run_part [of b hs d1 "MultiPartData bd"]
  by (simp add: run_events_append) (simp add: run_events_def read_body_def MultiPartData_def)

lemma empty_part_leaks_headers:
  "mp_data (run_events b ([OnHeaderField n, OnHeaderValue v] @ part_events hs d) (MultiPartData bd)) =
     [\<lparr>sec_headers = part_headers b hs [(n, parse_header_value b v)], sec_data = d\<rparr>]"
  using run_part [of b hs d "read_header_value b v (read_header_name n (MultiPartData bd))"]
  by (simp add: run_events_append) (simp add: run_events_def callback_defs MultiPartData_def)

end
