(* ===== verification/Sqlite_Helper.thy ===== *)
theory Sqlite_Helper
  imports Prelude
begin

text \<open>
  \<^verbatim>\<open>include/sqlite_helper.hpp\<close> and the part of SQLite the handlers call. SQLite is a
  parameter: a record \<open>sqlite\<close> over the type of its files' contents. \<open>sqlite_ok\<close> states its
  documented behaviour for the two statements of the program on the table that
  \<^verbatim>\<open>init.sh\<close> creates (\<^verbatim>\<open>token\<close> and \<^verbatim>\<open>url\<close> both UNIQUE NOT NULL), seen through
  \<open>rows\<close>, the rows of the table in a file; \<open>sqlite_available\<close> adds that no call fails without
  a reason in the table. A handle is \<open>Some path\<close> for an open connection and \<open>None\<close> for a null
  pointer.
\<close>

section \<open>The interface of SQLite\<close>

definition SQLITE_OK :: int where "SQLITE_OK = 0"
definition SQLITE_ROW :: int where "SQLITE_ROW = 100"
definition SQLITE_DONE :: int where "SQLITE_DONE = 101"

lemmas sqlite_codes = SQLITE_OK_def SQLITE_ROW_def SQLITE_DONE_def

type_synonym db_handle = "string option"

record 'd sqlite =
  sqlite3_open :: "'d \<Rightarrow> string \<Rightarrow> int \<times> bool"         \<comment> \<open>result code, \<^verbatim>\<open>*pp\<close> not null\<close>
  sqlite3_prepare :: "'d \<Rightarrow> db_handle \<Rightarrow> string \<Rightarrow> int"
  sqlite3_bind_text :: "'d \<Rightarrow> db_handle \<Rightarrow> string \<Rightarrow> nat \<Rightarrow> string \<Rightarrow> int"
  sqlite3_step :: "'d \<Rightarrow> db_handle \<Rightarrow> string \<Rightarrow> (nat \<times> string) list \<Rightarrow> int \<times> string option \<times> 'd"
                                              \<comment> \<open>result code, column 0, new contents\<close>
  sqlite3_errmsg :: "'d \<Rightarrow> db_handle \<Rightarrow> int \<Rightarrow> string"   \<comment> \<open>after a call with that code\<close>

definition insert_sql :: string where
  "insert_sql = ''INSERT INTO urls (token, url) VALUES (?, ?);''"

definition select_sql :: string where
  "select_sql = ''SELECT url FROM urls WHERE token = (?);''"

type_synonym url_rows = "(string \<times> string) list"

definition insert_ok :: "'d sqlite \<Rightarrow> ('d \<Rightarrow> string \<Rightarrow> url_rows) \<Rightarrow> bool" where
  "insert_ok api rows \<longleftrightarrow>
     (\<forall>d h binds rc col d'. sqlite3_step api d h insert_sql binds = (rc, col, d') \<longrightarrow>
        (if rc = SQLITE_DONE then
          (\<exists>p t u. h = Some p \<and> map_of binds 1 = Some t \<and> map_of binds 2 = Some u \<and>
                   t \<notin> fst ` set (rows d p) \<and> u \<notin> snd ` set (rows d p) \<and>
                   rows d' = (rows d)(p := rows d p @ [(t, u)]))
         else rows d' = rows d))"

definition select_ok :: "'d sqlite \<Rightarrow> ('d \<Rightarrow> string \<Rightarrow> url_rows) \<Rightarrow> bool" where
  "select_ok api rows \<longleftrightarrow>
     (\<forall>d h binds rc col d'. sqlite3_step api d h select_sql binds = (rc, col, d') \<longrightarrow>
        rows d' = rows d \<and>
        (rc = SQLITE_ROW \<longrightarrow>
           (\<exists>p t u. h = Some p \<and> map_of binds 1 = Some t \<and> col = Some u \<and> (t, u) \<in> set (rows d p))) \<and>
        (rc = SQLITE_DONE \<longrightarrow>
           (\<forall>p t. h = Some p \<and> map_of binds 1 = Some t \<longrightarrow> t \<notin> fst ` set (rows d p))))"

definition sqlite_ok :: "'d sqlite \<Rightarrow> ('d \<Rightarrow> string \<Rightarrow> url_rows) \<Rightarrow> bool" where
  "sqlite_ok api rows \<longleftrightarrow>
     (\<forall>d sql. sqlite3_prepare api d None sql \<noteq> SQLITE_OK) \<and> insert_ok api rows \<and> select_ok api rows"

definition sqlite_available :: "'d sqlite \<Rightarrow> ('d \<Rightarrow> string \<Rightarrow> url_rows) \<Rightarrow> bool" where
  "sqlite_available api rows \<longleftrightarrow>
     (\<forall>d p. sqlite3_open api d p = (SQLITE_OK, True)) \<and>
     (\<forall>d p sql. sqlite3_prepare api d (Some p) sql = SQLITE_OK) \<and>
     (\<forall>d p sql i v. sqlite3_bind_text api d (Some p) sql i v = SQLITE_OK) \<and>
     (\<forall>d p binds t u. map_of binds 1 = Some t \<and> map_of binds 2 = Some u \<and>
        t \<notin> fst ` set (rows d p) \<and> u \<notin> snd ` set (rows d p) \<longrightarrow>
        fst (sqlite3_step api d (Some p) insert_sql binds) = SQLITE_DONE) \<and>
     (\<forall>d p binds t. map_of binds 1 = Some t \<longrightarrow>
        fst (sqlite3_step api d (Some p) select_sql binds) =
          (if t \<in> fst ` set (rows d p) then SQLITE_ROW else SQLITE_DONE))"

lemma insert_step:
  assumes "sqlite_ok api rows" and "sqlite3_step api d h insert_sql binds = (rc, col, d')"
  shows "if rc = SQLITE_DONE then
           (\<exists>p t u. h = Some p \<and> map_of binds 1 = Some t \<and> map_of binds 2 = Some u \<and>
                    t \<notin> fst ` set (rows d p) \<and> u \<notin> snd ` set (rows d p) \<and>
                    rows d' = (rows d)(p := rows d p @ [(t, u)]))
         else rows d' = rows d"
  using assms unfolding sqlite_ok_def insert_ok_def by blast

lemma select_step:
  assumes "sqlite_ok api rows" and "sqlite3_step api d h select_sql binds = (rc, col, d')"
  shows "rows d' = rows d"
    and "rc = SQLITE_ROW \<Longrightarrow>
      \<exists>p t u. h = Some p \<and> map_of binds 1 = Some t \<and> col = Some u \<and> (t, u) \<in> set (rows d p)"
    and "rc = SQLITE_DONE \<Longrightarrow> h = Some p \<Longrightarrow> map_of binds 1 = Some t \<Longrightarrow> t \<notin> fst ` set (rows d p)"
  using assms unfolding sqlite_ok_def select_ok_def by blast+

lemma prepare_null: "sqlite_ok api rows \<Longrightarrow> sqlite3_prepare api d h sql = SQLITE_OK \<Longrightarrow> h \<noteq> None"
  unfolding sqlite_ok_def by (metis (full_types))

section \<open>An instance\<close>

text \<open>Files as a map from paths to rows, every call succeeding unless the table forbids it.\<close>

definition sqlite_ref :: "(string \<Rightarrow> url_rows) sqlite" where
  "sqlite_ref =
     \<lparr>sqlite3_open = (\<lambda>d p. (SQLITE_OK, True)),
      sqlite3_prepare = (\<lambda>d h sql. if h = None then 21 else SQLITE_OK),
      sqlite3_bind_text = (\<lambda>d h sql i v. SQLITE_OK),
      sqlite3_step = (\<lambda>d h sql binds.
        case h of None \<Rightarrow> (21, None, d)
        | Some p \<Rightarrow>
            if sql = insert_sql then
              (case (map_of binds 1, map_of binds 2) of
                 (Some t, Some u) \<Rightarrow>
                   if t \<in> fst ` set (d p) \<or> u \<in> snd ` set (d p) then (19, None, d)
                   else (SQLITE_DONE, None, d(p := d p @ [(t, u)]))
               | _ \<Rightarrow> (19, None, d))
            else
              (case map_of binds 1 of
                 None \<Rightarrow> (SQLITE_DONE, None, d)
               | Some t \<Rightarrow>
                   (case map_of (d p) t of
                      None \<Rightarrow> (SQLITE_DONE, None, d)
                    | Some u \<Rightarrow> (SQLITE_ROW, Some u, d)))),
      sqlite3_errmsg = (\<lambda>d h rc. ''error'')\<rparr>"

lemma sql_distinct: "insert_sql \<noteq> select_sql" "select_sql \<noteq> insert_sql"
  by (simp_all add: insert_sql_def select_sql_def)

lemma no_token_iff: "map_of r t = None \<longleftrightarrow> t \<notin> fst ` set r"
  by (rule map_of_eq_None_iff)

lemma sqlite_ref_insert:
  "sqlite3_step sqlite_ref d (Some p) insert_sql binds =
     (case (map_of binds 1, map_of binds 2) of
        (Some t, Some u) \<Rightarrow>
          if t \<in> fst ` set (d p) \<or> u \<in> snd ` set (d p) then (19, None, d)
          else (SQLITE_DONE, None, d(p := d p @ [(t, u)]))
      | _ \<Rightarrow> (19, None, d))"
  by (simp add: sqlite_ref_def)

lemma sqlite_ref_select:
  "sqlite3_step sqlite_ref d (Some p) select_sql binds =
     (case map_of binds 1 of
        None \<Rightarrow> (SQLITE_DONE, None, d)
      | Some t \<Rightarrow>
          (case map_of (d p) t of
             None \<Rightarrow> (SQLITE_DONE, None, d)
           | Some u \<Rightarrow> (SQLITE_ROW, Some u, d)))"
  by (simp add: sqlite_ref_def sql_distinct)

lemma sqlite_ref_null: "sqlite3_step sqlite_ref d None sql binds = (21, None, d)"
  by (simp add: sqlite_ref_def)

lemma sqlite_ref_insert_ok: "insert_ok sqlite_ref (\<lambda>d. d)"
  unfolding insert_ok_def
proof (intro allI impI)
  fix d :: "string \<Rightarrow> url_rows" and h :: db_handle and binds rc col d'
  assume "sqlite3_step sqlite_ref d h insert_sql binds = (rc, col, d')"
  then show "if rc = SQLITE_DONE then
          (\<exists>p t u. h = Some p \<and> map_of binds 1 = Some t \<and> map_of binds 2 = Some u \<and>
                   t \<notin> fst ` set (d p) \<and> u \<notin> snd ` set (d p) \<and> d' = d(p := d p @ [(t, u)]))
         else d' = d"
    by (cases h; cases "map_of binds 1"; cases "map_of binds 2")
       (simp_all add: sqlite_ref_null sqlite_ref_insert sqlite_codes split: if_splits)
qed

lemma sqlite_ref_select_ok: "select_ok sqlite_ref (\<lambda>d. d)"
  unfolding select_ok_def
proof (intro allI impI)
  fix d :: "string \<Rightarrow> url_rows" and h :: db_handle and binds rc col d'
  assume s: "sqlite3_step sqlite_ref d h select_sql binds = (rc, col, d')"
  show "d' = d \<and>
        (rc = SQLITE_ROW \<longrightarrow>
           (\<exists>p t u. h = Some p \<and> map_of binds 1 = Some t \<and> col = Some u \<and> (t, u) \<in> set (d p))) \<and>
        (rc = SQLITE_DONE \<longrightarrow>
           (\<forall>p t. h = Some p \<and> map_of binds 1 = Some t \<longrightarrow> t \<notin> fst ` set (d p)))"
  proof (cases h)
    case None
    with s show ?thesis by (simp add: sqlite_ref_null sqlite_codes) 
  next
    case (Some p)
    show ?thesis
    proof (cases "map_of binds 1")
      case None
      with s Some show ?thesis by (simp add: sqlite_ref_select sqlite_codes)
    next
      case (Some t)
      show ?thesis
        using s \<open>h = Some p\<close> Some no_token_iff [of "d p" t]
        by (cases "map_of (d p) t") (simp_all add: sqlite_ref_select sqlite_codes, metis map_of_SomeD)
    qed
  qed
qed

lemma sqlite_ref_ok [simp]: "sqlite_ok sqlite_ref (\<lambda>d. d)"
  unfolding sqlite_ok_def
  using sqlite_ref_insert_ok sqlite_ref_select_ok by (simp add: sqlite_ref_def SQLITE_OK_def)

lemma sqlite_ref_available [simp]: "sqlite_available sqlite_ref (\<lambda>d. d)"
proof -
  have "fst (sqlite3_step sqlite_ref d (Some p) insert_sql binds) = SQLITE_DONE"
    if "map_of binds 1 = Some t \<and> map_of binds 2 = Some u \<and> t \<notin> fst ` set (d p) \<and> u \<notin> snd ` set (d p)"
    for d p binds t u
    using that by (simp add: sqlite_ref_insert)
  moreover have "fst (sqlite3_step sqlite_ref d (Some p) select_sql binds) =
          (if t \<in> fst ` set (d p) then SQLITE_ROW else SQLITE_DONE)"
    if "map_of binds 1 = Some t" for d p binds t
    using that no_token_iff [of "d p" t]
    by (cases "map_of (d p) t") (simp_all add: sqlite_ref_select)
  moreover have "sqlite3_open sqlite_ref d p = (SQLITE_OK, True)"
    "sqlite3_prepare sqlite_ref d (Some p) sql = SQLITE_OK"
    "sqlite3_bind_text sqlite_ref d (Some p) sql i v = SQLITE_OK" for d p sql i v
    by (simp_all add: sqlite_ref_def)
  ultimately show ?thesis unfolding sqlite_available_def by blast
qed

end
