(* ===== verification/Logging.thy ===== *)
theory Logging
  imports Boost_Strings
begin

text \<open>
  \<^verbatim>\<open>src/log.cpp\<close>: the report of a failed operation and the choice of the log level. A
  call of \<^verbatim>\<open>syslog\<close> is an entry (priority, text) appended to the log; the priorities and
  the mask \<^verbatim>\<open>LOG_UPTO\<close> are those of \<^verbatim>\<open><syslog.h>\<close>.
\<close>

type_synonym syslog_entry = "nat \<times> string"

definition LOG_ALERT :: nat where "LOG_ALERT = 1"
definition LOG_CRIT :: nat where "LOG_CRIT = 2"
definition LOG_ERR :: nat where "LOG_ERR = 3"
definition LOG_WARNING :: nat where "LOG_WARNING = 4"
definition LOG_NOTICE :: nat where "LOG_NOTICE = 5"
definition LOG_INFO :: nat where "LOG_INFO = 6"
definition LOG_DEBUG :: nat where "LOG_DEBUG = 7"

lemmas log_priorities = LOG_ALERT_def LOG_CRIT_def LOG_ERR_def LOG_WARNING_def LOG_NOTICE_def
  LOG_INFO_def LOG_DEBUG_def

definition LOG_UPTO :: "nat \<Rightarrow> nat" where
  "LOG_UPTO p = push_bit (p + 1) 1 - 1"

text \<open>The error codes the program tells apart, with the text of \<^verbatim>\<open>message()\<close>.\<close>

datatype error_code = Success | StreamTruncated | EndOfStream string | OtherError string

fun ec_message :: "error_code \<Rightarrow> string" where
  "ec_message (EndOfStream m) = m"
| "ec_message (OtherError m) = m"
| "ec_message _ = []"

text \<open>\<^verbatim>\<open>logging::fail\<close>.\<close>

definition fail :: "error_code \<Rightarrow> string \<Rightarrow> syslog_entry list" where
  "fail ec what =
     (if ec = StreamTruncated then []
      else [(LOG_INFO, what @ '': '' @ cstr (ec_message ec))])"

text \<open>\<^verbatim>\<open>logging::set_log_level\<close>: the result, the log, the mask if it was set.\<close>

definition set_log_level :: "boost_str \<Rightarrow> string \<Rightarrow> bool \<times> syslog_entry list \<times> nat option" where
  "set_log_level b level =
     (let found = (\<lambda>log_level. (True, [], Some (LOG_UPTO log_level))) in
      if bs_iequals b level ''debug'' then found LOG_DEBUG
      else if bs_iequals b level ''info'' then found LOG_INFO
      else if bs_iequals b level ''notice'' then found LOG_NOTICE
      else if bs_iequals b level ''warning'' then found LOG_WARNING
      else if bs_iequals b level ''error'' then found LOG_ERR
      else if bs_iequals b level ''critical'' then found LOG_CRIT
      else if bs_iequals b level ''alert'' then found LOG_ALERT
      else (False, [(LOG_ALERT, ''Unknown log level '' @ cstr level)], None))"

definition level_table :: "(string \<times> nat) list" where
  "level_table = [(''DEBUG'', 7), (''INFO'', 6), (''NOTICE'', 5), (''WARNING'', 4), (''ERROR'', 3),
                  (''CRITICAL'', 2), (''ALERT'', 1)]"

lemma LOG_UPTO_eq: "LOG_UPTO p = mask (Suc p)"
  by (simp add: LOG_UPTO_def mask_eq_exp_minus_1 push_bit_eq_mult)

lemma LOG_UPTO_bit: "bit (LOG_UPTO p) q \<longleftrightarrow> q \<le> p"
  by (simp add: LOG_UPTO_eq bit_mask_iff less_Suc_eq_le)

lemma set_log_level_eq:
  assumes "boost_ok b"
  shows "set_log_level b level =
    (case map_of level_table (map to_upper level) of
       Some p \<Rightarrow> (True, [], Some (LOG_UPTO p))
     | None \<Rightarrow> (False, [(LOG_ALERT, ''Unknown log level '' @ cstr level)], None))"
proof -
  have names: "map to_upper ''debug'' = ''DEBUG''" "map to_upper ''info'' = ''INFO''"
    "map to_upper ''notice'' = ''NOTICE''" "map to_upper ''warning'' = ''WARNING''"
    "map to_upper ''error'' = ''ERROR''" "map to_upper ''critical'' = ''CRITICAL''"
    "map to_upper ''alert'' = ''ALERT''"
    by code_simp+
  show ?thesis
    using assms unfolding set_log_level_def level_table_def
    by (simp only: bs_iequals_eq names Let_def map_of.simps log_priorities) auto
qed

section \<open>Properties\<close>

text \<open>
  \<open>set_log_level\<close> accepts exactly the seven level names, in any mixture of upper and lower
  case, and then lets through the messages at least as urgent as the level and no others; any
  other name is refused, logged, and leaves the mask alone.
\<close>

theorem set_log_level_mask:
  assumes "boost_ok b"
  shows "(case map_of level_table (map to_upper level) of
            Some p \<Rightarrow> (\<exists>m. set_log_level b level = (True, [], Some m) \<and> (\<forall>q. bit m q \<longleftrightarrow> q \<le> p))
          | None \<Rightarrow> fst (set_log_level b level) = False \<and> snd (snd (set_log_level b level)) = None)"
  using assms by (auto simp: set_log_level_eq LOG_UPTO_bit split: option.split)

theorem set_log_level_mask_witness:
  "\<exists>m. set_log_level boost_ref ''Notice'' = (True, [], Some m) \<and> (\<forall>q. bit m q \<longleftrightarrow> q \<le> 5)"
proof -
  have "map_of level_table (map to_upper ''Notice'') = Some 5"
    by code_simp
  then show ?thesis
    using set_log_level_mask [OF boost_ref_ok, of "''Notice''"] by simp
qed

end
