(* ===== verification/Request.thy ===== *)
theory Request
  imports Response Routes Parse_Qs Multipart Sqlite_Helper Logging
begin

text \<open>
  The handlers of \<^verbatim>\<open>include/request.hpp\<close>. A handler takes the environment (the
  configuration and the libraries it calls, all parameters), a request and the world, and returns
  the world after it: the database, the count of random values used, the log, the operations on
  files and connections in order, and the responses passed to \<^verbatim>\<open>send\<close>. A thrown exception
  and undefined behaviour are the other two results.

  Handlers run on several threads, and what they share is the database. A handler that works on it
  is translated in two phases, cut before its call of \<^verbatim>\<open>sqlite3_step\<close>: the first phase
  ends with what the handler holds then (\<open>pending\<close>), the second takes that up. Between the two,
  handlers of other sessions may change the contents of the database; the statement and the
  connection are the handler's own. A handler that is not interleaved is the two phases in
  succession (\<open>then_finish\<close>); the lemmas at the end of the theory write these handlers out.
\<close>

section \<open>Environment and world\<close>

text \<open>\<^verbatim>\<open>file_body::open\<close> gives the size of the opened file, or an error.\<close>

datatype open_result = Opened nat | NoSuchFile | OpenError

record 't inja =
  parse_template :: "string \<Rightarrow> string + 't"                 \<comment> \<open>\<open>Inl\<close>: \<^verbatim>\<open>what()\<close> of the exception\<close>
  render :: "'t \<Rightarrow> string smap \<Rightarrow> string + string"

record ('d, 't) env =
  state :: server_state
  boost :: boost_str
  rand :: rng
  sql :: "'d sqlite"
  parser :: mp_parser
  templates :: "'t inja"
  file_open :: "string \<Rightarrow> open_result"
  beast_version :: string

datatype io_op =
    OpenFile string
  | LoadTemplate string
  | SqlOpen string bool        \<comment> \<open>path, whether a connection object came back\<close>
  | SqlClose
  | SqlPrepare string bool     \<comment> \<open>whether a statement came back\<close>
  | SqlBind nat string
  | SqlStep
  | SqlFinalize

record 'd world =
  db :: 'd
  rd_count :: nat
  log :: "syslog_entry list"
  trace :: "io_op list"
  sent :: "response list"

definition send :: "response \<Rightarrow> 'd world \<Rightarrow> 'd world" where
  "send r w = w\<lparr>sent := sent w @ [r]\<rparr>"

definition io :: "io_op \<Rightarrow> 'd world \<Rightarrow> 'd world" where
  "io a w = w\<lparr>trace := trace w @ [a]\<rparr>"

definition syslog :: "nat \<Rightarrow> string \<Rightarrow> 'd world \<Rightarrow> 'd world" where
  "syslog p msg w = w\<lparr>log := log w @ [(p, msg)]\<rparr>"

section \<open>Files\<close>

text \<open>
  On an error other than a missing file, the code prints \<^verbatim>\<open>req.target().data()\<close> as a C
  string. The view is not terminated: Beast keeps the target in a heap block of exactly its length,
  so the read leaves the block, which is undefined.
\<close>

definition handle_file :: "('d, 't) env \<Rightarrow> request \<Rightarrow> 'd world \<Rightarrow> 'd world res" where
  "handle_file e req w =
     (let ver = beast_version e;
          path = path_cat (get_config_doc_root (state e)) (req_target req) in
      if req_method req \<noteq> Get \<and> req_method req \<noteq> Head then
        Ok (send (bad_request ver req ''Unknown HTTP-method'') w)
      else
        let w1 = io (OpenFile (cstr path)) w in
        case file_open e (cstr path) of
          NoSuchFile \<Rightarrow> Ok (send (not_found ver req (req_target req)) w1)
        | OpenError \<Rightarrow> UB
        | Opened sz \<Rightarrow>
            if req_method req = Head then Ok (send (ok_head_file ver req path sz (state e)) w1)
            else if req_method req = Get then Ok (send (ok_get_file ver req path sz (state e)) w1)
            else Ok (send (bad_request ver req ''Unknown HTTP method'') w1))"

section \<open>Templates\<close>

text \<open>The path of a template; \<^verbatim>\<open>target().back()\<close> of an empty target is undefined.\<close>

definition template_path :: "('d, 't) env \<Rightarrow> request \<Rightarrow> string res" where
  "template_path e req =
     (let path = path_cat (get_config_doc_root (state e)) (req_target req) in
      if req_target req = [] then UB
      else if last (req_target req) = CHR ''/'' then Ok (path @ ''index.html'')
      else Ok path)"

text \<open>The \<^verbatim>\<open>try\<close> block that loads and renders, and the response after it.\<close>

definition serve_template ::
    "('d, 't) env \<Rightarrow> request \<Rightarrow> string \<Rightarrow> string smap \<Rightarrow> 'd world \<Rightarrow> 'd world" where
  "serve_template e req path data w =
     (let ver = beast_version e;
          w1 = io (LoadTemplate path) w in
      case parse_template (templates e) path of
        Inl what \<Rightarrow> send (bad_request ver req (''Could not serve page: '' @ cstr what)) w1
      | Inr temp \<Rightarrow>
          (case render (templates e) temp data of
             Inl what \<Rightarrow> send (bad_request ver req (''Could not serve page: '' @ cstr what)) w1
           | Inr result \<Rightarrow> send (ok_string ver req result) w1))"

definition handle_get_template :: "('d, 't) env \<Rightarrow> request \<Rightarrow> 'd world \<Rightarrow> 'd world res" where
  "handle_get_template e req w =
     (if req_method req \<noteq> Get then
        Ok (send (bad_request (beast_version e) req ''Unknown HTTP-method'') w)
      else
        rbind (template_path e req) (\<lambda>path.
          let data = smap_put ''hostname'' (get_config_hostname (state e)) []
          in Ok (serve_template e req path data w)))"

section \<open>Connections\<close>

text \<open>
  \<^verbatim>\<open>make_sqlite3_handle\<close>: a failed open resets the pointer, which closes the connection
  object if there is one.
\<close>

definition make_sqlite3_handle :: "('d, 't) env \<Rightarrow> string \<Rightarrow> 'd world \<Rightarrow> db_handle \<times> 'd world" where
  "make_sqlite3_handle e db_name w =
     (let (rc, nonnull) = sqlite3_open (sql e) (db w) db_name;
          w1 = io (SqlOpen db_name nonnull) w in
      if rc \<noteq> 0 then (None, if nonnull then io SqlClose w1 else w1)
      else (if nonnull then Some db_name else None, w1))"

text \<open>The destructor of the handle.\<close>

definition close_handle :: "db_handle \<Rightarrow> 'd world \<Rightarrow> 'd world" where
  "close_handle h w = (if h = None then w else io SqlClose w)"

text \<open>
  The branch every failed call takes: the message is logged and sent. The two prefixes of the
  source differ by a space.
\<close>

definition sql_failure ::
    "('d, 't) env \<Rightarrow> request \<Rightarrow> string \<Rightarrow> db_handle \<Rightarrow> int \<Rightarrow> 'd world \<Rightarrow> 'd world" where
  "sql_failure e req prefix h rc w =
     (let err = cstr (sqlite3_errmsg (sql e) (db w) h rc) in
      send (server_error (beast_version e) req (prefix @ err))
        (syslog LOG_ERR (''Error with sqlite3: '' @ err) w))"

text \<open>A call of \<^verbatim>\<open>sqlite3_bind_text\<close> that succeeds adds to the bindings.\<close>

definition bind_text ::
    "('d, 't) env \<Rightarrow> db_handle \<Rightarrow> string \<Rightarrow> nat \<Rightarrow> string \<Rightarrow> (nat \<times> string) list \<Rightarrow> 'd world \<Rightarrow>
       int \<times> (nat \<times> string) list \<times> 'd world" where
  "bind_text e h stmt i v binds w =
     (let rc = sqlite3_bind_text (sql e) (db w) h stmt i (cstr v) in
      (rc, if rc = SQLITE_OK then (i, cstr v) # binds else binds, io (SqlBind i (cstr v)) w))"

section \<open>Looking up a shortened URL\<close>

definition rickroll :: string where
  "rickroll = ''https://www.youtube.com/watch?v=dQw4w9WgXcQ?autoplay=1''"

definition step_select ::
    "('d, 't) env \<Rightarrow> request \<Rightarrow> db_handle \<Rightarrow> (nat \<times> string) list \<Rightarrow> 'd world \<Rightarrow> 'd world res" where
  "step_select e req h binds w =
     (let (step, col, d') = sqlite3_step (sql e) (db w) h select_sql binds;
          w1 = io SqlStep (w\<lparr>db := d'\<rparr>) in
      if step = SQLITE_ROW then
        (case col of
           None \<Rightarrow> UB
         | Some c \<Rightarrow> Ok (send (redirect_permanent (beast_version e) req (cstr c)) w1))
      else Ok (send (redirect_permanent (beast_version e) req rickroll) w1))"

text \<open>What a handler holds when it is about to step its statement.\<close>

datatype pending =
    Lookup db_handle "(nat \<times> string) list"
  | Insert db_handle "(nat \<times> string) list" string "string smap"   \<comment> \<open>path and data of the page\<close>

type_synonym 'd phase = "('d world + pending \<times> 'd world) res"

text \<open>Up to the step: the method, the connection, the statement, the token bound to it.\<close>

definition begin_get_url :: "('d, 't) env \<Rightarrow> request \<Rightarrow> 'd world \<Rightarrow> 'd phase" where
  "begin_get_url e req w =
     (if req_method req \<noteq> Get then
        Ok (Inl (send (bad_request (beast_version e) req ''Unknown HTTP-method'') w))
      else
        let (h, w1) = make_sqlite3_handle e (cstr (get_config_db_path (state e))) w;
            rc = sqlite3_prepare (sql e) (db w1) h select_sql;
            w2 = io (SqlPrepare select_sql (rc = SQLITE_OK)) w1 in
        if rc \<noteq> SQLITE_OK then
          Ok (Inl (close_handle h (sql_failure e req ''SQL error: '' h rc w2)))
        else if req_target req = [] then Exn OutOfRange
        else
          let token = drop 1 (req_target req);
              (rc2, binds, w3) = bind_text e h select_sql 1 token [] w2 in
          if rc2 \<noteq> SQLITE_OK then
            Ok (Inl (close_handle h (io SqlFinalize (sql_failure e req ''SQL error:'' h rc2 w3))))
          else Ok (Inr (Lookup h binds, w3)))"

text \<open>From the step on: the redirect, and the destructors.\<close>

definition finish_get_url ::
    "('d, 't) env \<Rightarrow> request \<Rightarrow> db_handle \<Rightarrow> (nat \<times> string) list \<Rightarrow> 'd world \<Rightarrow> 'd world res" where
  "finish_get_url e req h binds w =
     rbind (step_select e req h binds w) (\<lambda>w4. Ok (close_handle h (io SqlFinalize w4)))"

section \<open>Shortening a URL\<close>

definition form_type :: string where
  "form_type = ''application/x-www-form-urlencoded''"

definition multipart_type :: string where
  "multipart_type = ''multipart/form-data''"

text \<open>
  The URL of a request: \<open>Inl why\<close> where the handler answers with \<^verbatim>\<open>bad_request\<close> at once.
  First the branch for a form, then the one for multipart data with its loop over the sections;
  \<^verbatim>\<open>operator[]\<close> of a map returns the first alternative of the variant for an absent key.
\<close>

definition form_url :: "('d, 't) env \<Rightarrow> request \<Rightarrow> (string + string) res" where
  "form_url e req =
     rbind (parse_qsl (boost e) (req_body req) default_maxparams) (\<lambda>qsm.
       case smap_get qsm ''url'' of
         None \<Rightarrow> Ok (Inl ''No URL parameter passed'')
       | Some url \<Rightarrow> Ok (Inr url))"

fun section_url :: "multipart_section list \<Rightarrow> string" where
  "section_url [] = []"
| "section_url (elem # rest) =
     (case smap_get (get_headers elem) ''Content-Disposition'' of
        None \<Rightarrow> section_url rest
      | Some (HStr _) \<Rightarrow> section_url rest
      | Some (HParams cdmap) \<Rightarrow>
          (case smap_get cdmap ''name'' of
             None \<Rightarrow> section_url rest
           | Some Standalone \<Rightarrow> section_url rest
           | Some (PStr name) \<Rightarrow>
               if name = ''url'' then get_section_data elem else section_url rest))"

definition multipart_url :: "('d, 't) env \<Rightarrow> request \<Rightarrow> string \<Rightarrow> string + string" where
  "multipart_url e req content_type =
     (case parse_header_value (boost e) content_type of
        HStr _ \<Rightarrow> Inl ''Bad request''
      | HParams hvmap \<Rightarrow>
          (case smap_get hvmap ''boundary'' of
             None \<Rightarrow> Inl ''Bad request''
           | Some Standalone \<Rightarrow> Inl ''Bad request''
           | Some (PStr boundary) \<Rightarrow>
               if boundary = [] then Inl ''Bad request''
               else
                 let body = bs_trim_right (boost e) (req_body req);
                     url = section_url (get_data (ingest (boost e) (parser e) body (MultiPartData boundary)))
                 in if url = [] then Inl ''No URL specified'' else Inr url))"

definition request_url :: "('d, 't) env \<Rightarrow> request \<Rightarrow> (string + string) res" where
  "request_url e req =
     (let content_type = req_field req ''Content-Type'' in
      if content_type = form_type then form_url e req
      else if starts_with content_type multipart_type then Ok (multipart_url e req content_type)
      else Ok (Inl (''Bad content type '' @ content_type)))"

definition http_url :: "string \<Rightarrow> bool" where
  "http_url url = (starts_with url ''http://'' \<or> starts_with url ''https://'')"

text \<open>What the template of the page is given.\<close>

definition post_data :: "('d, 't) env \<Rightarrow> string \<Rightarrow> string \<Rightarrow> string smap" where
  "post_data e url token =
     smap_put ''token'' token
       (smap_put ''url'' url (smap_put ''hostname'' (get_config_hostname (state e)) []))"

text \<open>
  From the connection to the step, and from the step to the page. The results of the two calls of
  \<^verbatim>\<open>sqlite3_bind_text\<close> are ignored; the statement is finalized and the connection closed
  when the handler returns.
\<close>

definition begin_store ::
    "('d, 't) env \<Rightarrow> request \<Rightarrow> string \<Rightarrow> string \<Rightarrow> string \<Rightarrow> 'd world \<Rightarrow> 'd world + pending \<times> 'd world" where
  "begin_store e req path url token w =
     (let (h, w1) = make_sqlite3_handle e (cstr (get_config_db_path (state e))) w;
          rc = sqlite3_prepare (sql e) (db w1) h insert_sql;
          w2 = io (SqlPrepare insert_sql (rc = SQLITE_OK)) w1 in
      if rc \<noteq> SQLITE_OK then Inl (close_handle h (sql_failure e req ''SQL error: '' h rc w2))
      else
        let (_, binds1, w3) = bind_text e h insert_sql 1 token [] w2;
            (_, binds2, w4) = bind_text e h insert_sql 2 url binds1 w3
        in Inr (Insert h binds2 path (post_data e url token), w4))"

definition finish_store ::
    "('d, 't) env \<Rightarrow> request \<Rightarrow> db_handle \<Rightarrow> (nat \<times> string) list \<Rightarrow> string \<Rightarrow> string smap \<Rightarrow> 'd world \<Rightarrow> 'd world" where
  "finish_store e req h binds path data w =
     (let (step, _, d') = sqlite3_step (sql e) (db w) h insert_sql binds;
          w5 = io SqlStep (w\<lparr>db := d'\<rparr>);
          w6 = (if step \<noteq> SQLITE_DONE then sql_failure e req ''SQL error: '' h step w5
                else serve_template e req path data w5)
      in close_handle h (io SqlFinalize w6))"

text \<open>The handler of a post up to its step.\<close>

definition begin_post :: "('d, 't) env \<Rightarrow> request \<Rightarrow> 'd world \<Rightarrow> 'd phase" where
  "begin_post e req w =
     (let ver = beast_version e in
      if req_method req \<noteq> Post then Ok (Inl (send (bad_request ver req ''Unknown HTTP-method'') w))
      else
        rbind (template_path e req) (\<lambda>path.
        rbind (request_url e req) (\<lambda>found.
          case found of
            Inl why \<Rightarrow> Ok (Inl (send (bad_request ver req why) w))
          | Inr url \<Rightarrow>
              if \<not> http_url url then Ok (Inl (send (bad_request ver req ''Invalid URL'') w))
              else
                case generate_random_filename (boost e) (rand e) (rd_count w) of
                  None \<Rightarrow> UB
                | Some (token, n) \<Rightarrow> Ok (begin_store e req path url token (w\<lparr>rd_count := n\<rparr>)))))"

section \<open>Dispatch\<close>

fun begin_route :: "('d, 't) env \<Rightarrow> route \<Rightarrow> request \<Rightarrow> 'd world \<Rightarrow> 'd phase" where
  "begin_route e HandleFile req w = rbind (handle_file e req w) (\<lambda>w'. Ok (Inl w'))"
| "begin_route e HandlePost req w = begin_post e req w"
| "begin_route e HandleGetTemplate req w = rbind (handle_get_template e req w) (\<lambda>w'. Ok (Inl w'))"
| "begin_route e HandleGetUrl req w = begin_get_url e req w"

definition begin_request :: "('d, 't) env \<Rightarrow> request \<Rightarrow> 'd world \<Rightarrow> 'd phase" where
  "begin_request e req w =
     (if illegal_target (req_target req) then
        Ok (Inl (send (bad_request (beast_version e) req ''Illegal request-target'') w))
      else
        case find_route routes (req_target req) of
          Some fn \<Rightarrow> begin_route e fn req w
        | None \<Rightarrow> Ok (Inl (send (not_found (beast_version e) req (req_target req)) w)))"

fun finish_request :: "('d, 't) env \<Rightarrow> request \<Rightarrow> pending \<Rightarrow> 'd world \<Rightarrow> 'd world res" where
  "finish_request e req (Lookup h binds) w = finish_get_url e req h binds w"
| "finish_request e req (Insert h binds path data) w = Ok (finish_store e req h binds path data w)"

section \<open>Whole handlers\<close>

definition then_finish :: "('d, 't) env \<Rightarrow> request \<Rightarrow> 'd phase \<Rightarrow> 'd world res" where
  "then_finish e req ph =
     rbind ph (\<lambda>r. case r of Inl w' \<Rightarrow> Ok w' | Inr (p, w') \<Rightarrow> finish_request e req p w')"

definition handle_get_url :: "('d, 't) env \<Rightarrow> request \<Rightarrow> 'd world \<Rightarrow> 'd world res" where
  "handle_get_url e req w = then_finish e req (begin_get_url e req w)"

definition handle_post :: "('d, 't) env \<Rightarrow> request \<Rightarrow> 'd world \<Rightarrow> 'd world res" where
  "handle_post e req w = then_finish e req (begin_post e req w)"

definition handle_request :: "('d, 't) env \<Rightarrow> request \<Rightarrow> 'd world \<Rightarrow> 'd world res" where
  "handle_request e req w = then_finish e req (begin_request e req w)"

text \<open>The handlers written out in the order of the source, without the cut.\<close>

lemma then_finish_simps [simp]:
  "then_finish e req (Ok (Inl w')) = Ok w'"
  "then_finish e req (Ok (Inr (p, w'))) = finish_request e req p w'"
  "then_finish e req (Exn x) = Exn x" "then_finish e req UB = UB"
  "then_finish e req (rbind m (\<lambda>w'. Ok (Inl w'))) = m"
  by (simp_all add: then_finish_def rbind_assoc)

lemma then_finish_rbind: "then_finish e req (rbind m f) = rbind m (\<lambda>x. then_finish e req (f x))"
  by (simp add: then_finish_def rbind_assoc)

lemma handle_get_url_eq:
  "handle_get_url e req w =
     (if req_method req \<noteq> Get then
        Ok (send (bad_request (beast_version e) req ''Unknown HTTP-method'') w)
      else
        let (h, w1) = make_sqlite3_handle e (cstr (get_config_db_path (state e))) w;
            rc = sqlite3_prepare (sql e) (db w1) h select_sql;
            w2 = io (SqlPrepare select_sql (rc = SQLITE_OK)) w1 in
        if rc \<noteq> SQLITE_OK then
          Ok (close_handle h (sql_failure e req ''SQL error: '' h rc w2))
        else if req_target req = [] then Exn OutOfRange
        else
          let token = drop 1 (req_target req);
              (rc2, binds, w3) = bind_text e h select_sql 1 token [] w2 in
          if rc2 \<noteq> SQLITE_OK then
            Ok (close_handle h (io SqlFinalize (sql_failure e req ''SQL error:'' h rc2 w3)))
          else
            rbind (step_select e req h binds w3) (\<lambda>w4. Ok (close_handle h (io SqlFinalize w4))))"
  by (auto simp: handle_get_url_def begin_get_url_def finish_get_url_def Let_def split: prod.split)

definition store_url ::
    "('d, 't) env \<Rightarrow> request \<Rightarrow> string \<Rightarrow> string \<Rightarrow> string \<Rightarrow> 'd world \<Rightarrow> 'd world" where
  "store_url e req path url token w =
     (case begin_store e req path url token w of
        Inl w' \<Rightarrow> w'
      | Inr (Insert h binds path' data, w') \<Rightarrow> finish_store e req h binds path' data w'
      | Inr (Lookup h binds, w') \<Rightarrow> w')"

lemma store_url_eq:
  "store_url e req path url token w =
     (let data = post_data e url token;
          (h, w1) = make_sqlite3_handle e (cstr (get_config_db_path (state e))) w;
          rc = sqlite3_prepare (sql e) (db w1) h insert_sql;
          w2 = io (SqlPrepare insert_sql (rc = SQLITE_OK)) w1 in
      if rc \<noteq> SQLITE_OK then close_handle h (sql_failure e req ''SQL error: '' h rc w2)
      else
        let (_, binds1, w3) = bind_text e h insert_sql 1 token [] w2;
            (_, binds2, w4) = bind_text e h insert_sql 2 url binds1 w3;
            (step, _, d') = sqlite3_step (sql e) (db w4) h insert_sql binds2;
            w5 = io SqlStep (w4\<lparr>db := d'\<rparr>);
            w6 = (if step \<noteq> SQLITE_DONE then sql_failure e req ''SQL error: '' h step w5
                  else serve_template e req path data w5) in
        close_handle h (io SqlFinalize w6))"
  by (auto simp: store_url_def begin_store_def finish_store_def Let_def split: prod.split)

lemma store_phases: "then_finish e req (Ok (begin_store e req path url token w)) = Ok (store_url e req path url token w)"
  by (auto simp: store_url_def begin_store_def Let_def split: prod.split)

lemma handle_post_eq:
  "handle_post e req w =
     (let ver = beast_version e in
      if req_method req \<noteq> Post then Ok (send (bad_request ver req ''Unknown HTTP-method'') w)
      else
        rbind (template_path e req) (\<lambda>path.
        rbind (request_url e req) (\<lambda>found.
          case found of
            Inl why \<Rightarrow> Ok (send (bad_request ver req why) w)
          | Inr url \<Rightarrow>
              if \<not> http_url url then Ok (send (bad_request ver req ''Invalid URL'') w)
              else
                case generate_random_filename (boost e) (rand e) (rd_count w) of
                  None \<Rightarrow> UB
                | Some (token, n) \<Rightarrow> Ok (store_url e req path url token (w\<lparr>rd_count := n\<rparr>)))))"
proof -
  have "then_finish e req (case found of
            Inl why \<Rightarrow> Ok (Inl (send (bad_request ver req why) w))
          | Inr url \<Rightarrow>
              if \<not> http_url url then Ok (Inl (send (bad_request ver req ''Invalid URL'') w))
              else
                case generate_random_filename (boost e) (rand e) (rd_count w) of
                  None \<Rightarrow> UB
                | Some (token, n) \<Rightarrow> Ok (begin_store e req path url token (w\<lparr>rd_count := n\<rparr>))) =
        (case found of
            Inl why \<Rightarrow> Ok (send (bad_request ver req why) w)
          | Inr url \<Rightarrow>
              if \<not> http_url url then Ok (send (bad_request ver req ''Invalid URL'') w)
              else
                case generate_random_filename (boost e) (rand e) (rd_count w) of
                  None \<Rightarrow> UB
                | Some (token, n) \<Rightarrow> Ok (store_url e req path url token (w\<lparr>rd_count := n\<rparr>)))" for found path ver
    by (auto simp: store_phases split: sum.split option.split)
  then show ?thesis
    by (simp add: handle_post_def begin_post_def then_finish_rbind Let_def)
qed

fun run_route :: "('d, 't) env \<Rightarrow> route \<Rightarrow> request \<Rightarrow> 'd world \<Rightarrow> 'd world res" where
  "run_route e HandleFile req w = handle_file e req w"
| "run_route e HandlePost req w = handle_post e req w"
| "run_route e HandleGetTemplate req w = handle_get_template e req w"
| "run_route e HandleGetUrl req w = handle_get_url e req w"

lemma run_route_phases: "run_route e fn req w = then_finish e req (begin_route e fn req w)"
  by (cases fn) (simp_all add: handle_get_url_def handle_post_def)

lemma handle_request_eq:
  "handle_request e req w =
     (if illegal_target (req_target req) then
        Ok (send (bad_request (beast_version e) req ''Illegal request-target'') w)
      else
        case find_route routes (req_target req) of
          Some fn \<Rightarrow> run_route e fn req w
        | None \<Rightarrow> Ok (send (not_found (beast_version e) req (req_target req)) w))"
  by (auto simp: handle_request_def begin_request_def run_route_phases split: option.split)

end
