(* ===== verification/Request_Effects.thy ===== *)
theory Request_Effects
  imports Request
begin

text \<open>
  What a handler does to the world, handler by handler: the one response it sends, the order of
  its operations on connections and files, and the rows of the table before and after. The
  properties of the request component at the end of the theory are instances of these lemmas.
\<close>

section \<open>Order of the operations\<close>

text \<open>
  The state of the SQLite objects of one request: is a connection object alive, is a statement.
  An operation that is not allowed in a state has no successor.
\<close>

fun bracket :: "bool \<times> bool \<Rightarrow> io_op \<Rightarrow> (bool \<times> bool) option" where
  "bracket (c, s) (SqlOpen p nonnull) = (if c \<or> s then None else Some (nonnull, False))"
| "bracket (c, s) SqlClose = (if c \<and> \<not> s then Some (False, False) else None)"
| "bracket (c, s) (SqlPrepare q ok) = (if s \<or> (ok \<and> \<not> c) then None else Some (c, ok))"
| "bracket (c, s) (SqlBind i v) = (if s then Some (c, s) else None)"
| "bracket (c, s) SqlStep = (if s then Some (c, s) else None)"
| "bracket (c, s) SqlFinalize = (if s then Some (c, False) else None)"
| "bracket (c, s) (OpenFile p) = Some (c, s)"
| "bracket (c, s) (LoadTemplate p) = Some (c, s)"

fun brackets :: "bool \<times> bool \<Rightarrow> io_op list \<Rightarrow> (bool \<times> bool) option" where
  "brackets s [] = Some s"
| "brackets s (a # as) = (case bracket s a of None \<Rightarrow> None | Some s' \<Rightarrow> brackets s' as)"

lemma brackets_append:
  "brackets s (as @ bs) = (case brackets s as of None \<Rightarrow> None | Some s' \<Rightarrow> brackets s' bs)"
  by (induction as arbitrary: s) (auto split: option.splits)

text \<open>A path opened for reading stays below the document root.\<close>

definition below :: "string \<Rightarrow> string \<Rightarrow> bool" where
  "below root p \<longleftrightarrow> (\<exists>ext. resolve p = resolve root @ ext \<and> ''..'' \<notin> set ext)"

definition reads_below :: "string \<Rightarrow> io_op \<Rightarrow> bool" where
  "reads_below root a \<longleftrightarrow> (\<forall>p. a = OpenFile p \<or> a = LoadTemplate p \<longrightarrow> below root p)"

text \<open>
  From \<open>w\<close> to \<open>w'\<close> operations were done that lead the SQLite objects from \<open>s\<close> to \<open>s'\<close> and read
  below \<open>root\<close> only.
\<close>

definition does :: "string \<Rightarrow> bool \<times> bool \<Rightarrow> 'd world \<Rightarrow> 'd world \<Rightarrow> bool \<times> bool \<Rightarrow> bool" where
  "does root s w w' s' \<longleftrightarrow>
     (\<exists>ops. trace w' = trace w @ ops \<and> brackets s ops = Some s' \<and> (\<forall>a\<in>set ops. reads_below root a))"

lemma does_refl [simp]: "does root s w w s"
  by (auto simp: does_def)

lemma does_trans [trans]: "does root s w w1 s1 \<Longrightarrow> does root s1 w1 w2 s2 \<Longrightarrow> does root s w w2 s2"
  by (fastforce simp: does_def brackets_append)

lemma does_io: "bracket s a = Some s' \<Longrightarrow> reads_below root a \<Longrightarrow> does root s w (io a w) s'"
  by (auto simp: does_def io_def)

lemma does_then_io:
  "does root s w w1 s1 \<Longrightarrow> bracket s1 a = Some s' \<Longrightarrow> reads_below root a \<Longrightarrow> does root s w (io a w1) s'"
  by (blast intro: does_trans does_io)

lemma does_send [simp]: "does root s w (send r w') s' \<longleftrightarrow> does root s w w' s'"
  by (simp add: does_def send_def)

lemma does_syslog [simp]: "does root s w (syslog p m w') s' \<longleftrightarrow> does root s w w' s'"
  by (simp add: does_def syslog_def)

lemma does_db [simp]:
  "does root s w (w'\<lparr>db := d\<rparr>) s' \<longleftrightarrow> does root s w w' s'"
  "does root s (w\<lparr>rd_count := n\<rparr>) w' s' \<longleftrightarrow> does root s w w' s'"
  by (simp_all add: does_def)

lemma reads_below_sql [simp]:
  "reads_below root (SqlOpen p b)" "reads_below root SqlClose" "reads_below root (SqlPrepare q b)"
  "reads_below root (SqlBind i v)" "reads_below root SqlStep" "reads_below root SqlFinalize"
  by (simp_all add: reads_below_def)

lemma world_simps [simp]:
  "sent (send r w) = sent w @ [r]" "sent (io a w) = sent w" "sent (syslog p m w) = sent w"
  "db (send r w) = db w" "db (io a w) = db w" "db (syslog p m w) = db w"
  "rd_count (send r w) = rd_count w" "rd_count (io a w) = rd_count w"
  "rd_count (syslog p m w) = rd_count w"
  by (simp_all add: send_def io_def syslog_def)

lemma close_handle_simps [simp]:
  "sent (close_handle h w) = sent w" "db (close_handle h w) = db w"
  "rd_count (close_handle h w) = rd_count w"
  by (simp_all add: close_handle_def)

lemma sql_failure_simps [simp]:
  "sent (sql_failure e req pre h rc w) =
     sent w @ [server_error (beast_version e) req (pre @ cstr (sqlite3_errmsg (sql e) (db w) h rc))]"
  "db (sql_failure e req pre h rc w) = db w"
  "rd_count (sql_failure e req pre h rc w) = rd_count w"
  "does root s w0 (sql_failure e req pre h rc w) s' \<longleftrightarrow> does root s w0 w s'"
  by (simp_all add: sql_failure_def Let_def)

section \<open>One response\<close>

text \<open>The world after a handler: one more response, which answers the request.\<close>

definition replied :: "('d, 't) env \<Rightarrow> request \<Rightarrow> 'd world \<Rightarrow> 'd world \<Rightarrow> response \<Rightarrow> bool" where
  "replied e req w w' r \<longleftrightarrow>
     sent w' = sent w @ [r] \<and> answers (beast_version e) req r \<and> response_ok (req_method req) r"

lemma serve_template_effect:
  assumes "below root path" and "req_method req \<noteq> Head"
  shows "(\<exists>r. replied e req w (serve_template e req path data w) r \<and> res_status r \<noteq> 301) \<and>
         db (serve_template e req path data w) = db w \<and>
         rd_count (serve_template e req path data w) = rd_count w \<and>
         does root s w (serve_template e req path data w) s"
proof -
  have "does root s w (io (LoadTemplate path) w) s"
    using assms(1) by (cases s) (auto intro!: does_io simp: reads_below_def)
  then show ?thesis
    using assms(2) by (auto simp: serve_template_def replied_def Let_def split: sum.split)
qed

lemma handle_file_effect:
  assumes "handle_file e req w = Ok w'"
    and "below root (cstr (path_cat (get_config_doc_root (state e)) (req_target req)))"
  shows "(\<exists>r. replied e req w w' r \<and> res_status r \<noteq> 301) \<and> db w' = db w \<and> rd_count w' = rd_count w \<and>
         does root (False, False) w w' (False, False)"
proof -
  let ?p = "cstr (path_cat (get_config_doc_root (state e)) (req_target req))"
  have "does root (False, False) w (io (OpenFile ?p) w) (False, False)"
    using assms(2) by (auto intro!: does_io simp: reads_below_def)
  then show ?thesis
    using assms(1)
    by (auto simp: handle_file_def replied_def Let_def split: if_splits open_result.splits)
qed

lemma handle_get_template_effect:
  assumes "handle_get_template e req w = Ok w'"
    and "\<And>path. template_path e req = Ok path \<Longrightarrow> below root path"
  shows "(\<exists>r. replied e req w w' r \<and> res_status r \<noteq> 301) \<and> db w' = db w \<and> rd_count w' = rd_count w \<and>
         does root (False, False) w w' (False, False)"
proof (cases "req_method req = Get")
  case False
  with assms(1) show ?thesis by (auto simp: handle_get_template_def replied_def)
next
  case True
  with assms(1) obtain path where p: "template_path e req = Ok path"
    and w': "w' = serve_template e req path (smap_put ''hostname'' (get_config_hostname (state e)) []) w"
    by (auto simp: handle_get_template_def res_simps Let_def)
  show ?thesis
    unfolding w' using serve_template_effect [OF assms(2) [OF p], of req e w] True by simp
qed

section \<open>Connections\<close>

lemma make_handle_effect:
  assumes "make_sqlite3_handle e p w = (h, w1)"
  shows "sent w1 = sent w" and "db w1 = db w" and "rd_count w1 = rd_count w"
    and "h = None \<or> h = Some p" and "does root (False, False) w w1 (h \<noteq> None, False)"
  using assms
  by (auto simp: make_sqlite3_handle_def Let_def intro!: does_io does_then_io
      split: prod.splits if_splits)

lemma close_handle_effect:
  "does root s w w1 (h \<noteq> None, False) \<Longrightarrow> does root s w (close_handle h w1) (False, False)"
  by (cases h) (auto simp: close_handle_def intro: does_then_io)

lemma bind_text_effect:
  assumes "bind_text e h q i v binds w = (rc, binds', w1)"
  shows "sent w1 = sent w" and "db w1 = db w" and "rd_count w1 = rd_count w"
    and "does root (c, True) w w1 (c, True)"
    and "binds' = (if rc = SQLITE_OK then (i, cstr v) # binds else binds)"
  using assms by (auto simp: bind_text_def Let_def intro!: does_io)

text \<open>A statement prepared on a new connection, and the answer when it could not be.\<close>

abbreviation db_file :: "('d, 't) env \<Rightarrow> string" where
  "db_file e \<equiv> cstr (get_config_db_path (state e))"

definition prepared :: "('d, 't) env \<Rightarrow> string \<Rightarrow> 'd world \<Rightarrow> db_handle \<Rightarrow> int \<Rightarrow> 'd world \<Rightarrow> bool" where
  "prepared e q w h rc w2 \<longleftrightarrow>
     (\<exists>w1. make_sqlite3_handle e (db_file e) w = (h, w1) \<and> rc = sqlite3_prepare (sql e) (db w1) h q \<and>
           w2 = io (SqlPrepare q (rc = SQLITE_OK)) w1)"

lemma prepared_effect:
  assumes "prepared e q w h rc w2"
  shows "sent w2 = sent w" and "db w2 = db w" and "rd_count w2 = rd_count w"
    and "rc \<noteq> SQLITE_OK \<Longrightarrow> does root (False, False) w w2 (h \<noteq> None, False)"
    and "sqlite_ok (sql e) rows \<Longrightarrow> rc = SQLITE_OK \<Longrightarrow>
           h = Some (db_file e) \<and> does root (False, False) w w2 (True, True)"
proof -
  obtain w1 where h: "make_sqlite3_handle e (db_file e) w = (h, w1)"
    and rc: "rc = sqlite3_prepare (sql e) (db w1) h q" and w2: "w2 = io (SqlPrepare q (rc = SQLITE_OK)) w1"
    using assms by (auto simp: prepared_def)
  note mk = make_handle_effect [OF h]
  show "sent w2 = sent w" "db w2 = db w" "rd_count w2 = rd_count w"
    using mk(1-3) by (simp_all add: w2)
  show "does root (False, False) w w2 (h \<noteq> None, False)" if "rc \<noteq> SQLITE_OK"
    unfolding w2 using mk(5) that by (auto intro!: does_then_io)
  show "h = Some (db_file e) \<and> does root (False, False) w w2 (True, True)"
    if "sqlite_ok (sql e) rows" "rc = SQLITE_OK"
  proof -
    have hn: "h = Some (db_file e)" using prepare_null [OF that(1)] mk(4) that(2) unfolding rc by blast
    then have "does root (False, False) w w2 (True, True)"
      unfolding w2 using mk(5) that(2) by (auto intro!: does_then_io)
    with hn show ?thesis by simp
  qed
qed

lemma refused_effect:
  assumes "prepared e q w h rc w2" and "rc \<noteq> SQLITE_OK" and "w' = close_handle h (sql_failure e req pre h rc w2)"
  shows "\<exists>r. replied e req w w' r \<and> res_status r \<noteq> 301" and "db w' = db w" and "rd_count w' = rd_count w"
    and "does root (False, False) w w' (False, False)"
  using prepared_effect(1-3) [OF assms(1)] prepared_effect(4) [OF assms(1,2), of root] assms(3)
  by (auto simp: replied_def intro!: close_handle_effect)

section \<open>Looking up\<close>

text \<open>Where a redirect may lead: the stored URL of the token, or the fixed video.\<close>

definition leads_to :: "url_rows \<Rightarrow> string \<Rightarrow> response \<Rightarrow> bool" where
  "leads_to table token r \<longleftrightarrow>
     smap_get (res_fields r) ''Location'' = Some rickroll \<or>
     (\<exists>u. (token, u) \<in> set table \<and> smap_get (res_fields r) ''Location'' = Some (cstr u))"

text \<open>The step of a bound statement.\<close>

lemma step_select_effect:
  assumes sq: "sqlite_ok (sql e) rows" and ok: "step_select e req (Some (db_file e)) binds w = Ok w'"
    and get: "req_method req = Get" and binds: "map_of binds 1 = Some token"
  shows "(\<exists>r. replied e req w w' r \<and> leads_to (rows (db w) (db_file e)) token r) \<and>
         rows (db w') = rows (db w) \<and> rd_count w' = rd_count w \<and> does root (True, True) w w' (True, True)"
proof -
  obtain step col d' where st: "sqlite3_step (sql e) (db w) (Some (db_file e)) select_sql binds = (step, col, d')"
    by (metis prod_cases3)
  note sel = select_step [OF sq st]
  have "does root (True, True) w (io SqlStep (w\<lparr>db := d'\<rparr>)) (True, True)"
    by (rule does_then_io [where ?s1.0 = "(True, True)"]) simp_all
  then show ?thesis
    using ok st sel binds get
    by (auto simp: step_select_def replied_def leads_to_def Let_def io_def split: if_splits option.splits)
qed

lemma handle_get_url_effect:
  assumes sq: "sqlite_ok (sql e) rows" and ok: "handle_get_url e req w = Ok w'"
  shows "(\<exists>r. replied e req w w' r \<and>
           (res_status r = 301 \<longrightarrow> leads_to (rows (db w) (db_file e)) (cstr (drop 1 (req_target req))) r)) \<and>
         rows (db w') = rows (db w) \<and> rd_count w' = rd_count w \<and>
         does root (False, False) w w' (False, False)"
proof (cases "req_method req = Get")
  case False
  with ok show ?thesis by (auto simp: handle_get_url_eq replied_def)
next
  case get: True
  obtain h w1 where h: "make_sqlite3_handle e (db_file e) w = (h, w1)" by fastforce
  define rc where "rc = sqlite3_prepare (sql e) (db w1) h select_sql"
  define w2 where "w2 = io (SqlPrepare select_sql (rc = SQLITE_OK)) w1"
  have p: "prepared e select_sql w h rc w2" using h by (simp add: prepared_def rc_def w2_def)
  note run = ok [unfolded handle_get_url_eq h rc_def [symmetric] Let_def prod.case] get
  show ?thesis
  proof (cases "rc = SQLITE_OK")
    case False
    then have "w' = close_handle h (sql_failure e req ''SQL error: '' h rc w2)"
      using run h by (simp add: rc_def w2_def)
    from refused_effect [OF p False this] show ?thesis by auto
  next
    case True
    obtain rc2 binds w3 where b: "bind_text e h select_sql 1 (drop 1 (req_target req)) [] w2 = (rc2, binds, w3)"
      by (metis prod_cases3)
    note bt = bind_text_effect [OF b]
    have hn: "h = Some (db_file e)" and d3: "does root (False, False) w w3 (True, True)"
      using prepared_effect(5) [OF p sq True] does_trans [OF _ bt(4)] by blast+
    have same: "sent w3 = sent w" "db w3 = db w" "rd_count w3 = rd_count w"
      using bt(1-3) prepared_effect(1-3) [OF p] by simp_all
    have ne: "req_target req \<noteq> []" using run True h by (auto simp: rc_def)
    show ?thesis
    proof (cases "rc2 = SQLITE_OK")
      case False
      have "w' = close_handle h (io SqlFinalize (sql_failure e req ''SQL error:'' h rc2 w3))"
        using run True h ne b False by (simp add: rc_def w2_def)
      moreover have "does root (False, False) w (io SqlFinalize (sql_failure e req ''SQL error:'' h rc2 w3)) (True, False)"
        using d3 by (auto intro!: does_then_io [where ?s1.0 = "(True, True)"])
      ultimately show ?thesis
        using same hn by (auto simp: replied_def intro!: close_handle_effect)
    next
      case bound: True
      obtain w4 where w4: "step_select e req h binds w3 = Ok w4" "w' = close_handle h (io SqlFinalize w4)"
        using run True h ne b bound by (auto simp: rc_def w2_def res_simps)
      have "map_of binds 1 = Some (cstr (drop 1 (req_target req)))"
        using bt(5) bound by simp
      note st = step_select_effect [OF sq w4(1) [unfolded hn] get this, of root]
      have "does root (False, False) w (io SqlFinalize w4) (True, False)"
        using does_trans [OF d3, of w4] st by (auto intro!: does_then_io)
      then show ?thesis
        using st same w4(2) hn by (auto simp: replied_def intro!: close_handle_effect)
    qed
  qed
qed

section \<open>Storing\<close>

text \<open>What happens to the table: nothing, or one new row with a new token and a new URL.\<close>

definition stores :: "('d \<Rightarrow> string \<Rightarrow> url_rows) \<Rightarrow> string \<Rightarrow> string \<Rightarrow> string \<Rightarrow> 'd \<Rightarrow> 'd \<Rightarrow> bool" where
  "stores rows file token url d d' \<longleftrightarrow>
     token \<notin> fst ` set (rows d file) \<and> url \<notin> snd ` set (rows d file) \<and>
     rows d' = (rows d)(file := rows d file @ [(token, url)])"

text \<open>The step of the insertion, and the page that follows it.\<close>

lemma insert_stores:
  assumes sq: "sqlite_ok (sql e) rows"
    and st: "sqlite3_step (sql e) d (Some (db_file e)) insert_sql binds = (step, col, d')"
    and binds: "\<And>t u. map_of binds 1 = Some t \<Longrightarrow> map_of binds 2 = Some u \<Longrightarrow> t = token \<and> u = url"
  shows "rows d' = rows d \<or> stores rows (db_file e) token url d d'"
  using insert_step [OF sq st] binds by (auto simp: stores_def split: if_splits)

lemma insert_page_effect:
  assumes "below root path" and post: "req_method req = Post"
    and w5: "w5 = io SqlStep (w\<lparr>db := d'\<rparr>)"
    and w6: "w6 = (if step \<noteq> SQLITE_DONE then sql_failure e req pre h step w5
                   else serve_template e req path data w5)"
  shows "\<exists>r. replied e req w w6 r \<and> res_status r \<noteq> 301" and "db w6 = d'" and "rd_count w6 = rd_count w"
    and "does root (True, True) w w6 (True, True)"
proof -
  note tp = serve_template_effect [OF assms(1), of req e w5 data "(True, True)"]
  have d5: "does root (True, True) w w5 (True, True)"
    unfolding w5 by (rule does_then_io [where ?s1.0 = "(True, True)"]) simp_all
  have same: "sent w5 = sent w" "db w5 = d'" "rd_count w5 = rd_count w"
    by (simp_all add: w5 io_def)
  show "\<exists>r. replied e req w w6 r \<and> res_status r \<noteq> 301" "db w6 = d'" "rd_count w6 = rd_count w"
    using tp post same by (auto simp: w6 replied_def)
  show "does root (True, True) w w6 (True, True)"
    unfolding w6 using d5 tp post by (auto intro: does_trans)
qed

lemma store_url_effect:
  assumes sq: "sqlite_ok (sql e) rows" and path: "below root path" and post: "req_method req = Post"
    and w': "w' = store_url e req path url token w"
  shows "(\<exists>r. replied e req w w' r \<and> res_status r \<noteq> 301) \<and> rd_count w' = rd_count w \<and>
         (rows (db w') = rows (db w) \<or> stores rows (db_file e) (cstr token) (cstr url) (db w) (db w')) \<and>
         does root (False, False) w w' (False, False)"
proof -
  obtain h w1 where h: "make_sqlite3_handle e (db_file e) w = (h, w1)" by fastforce
  define rc where "rc = sqlite3_prepare (sql e) (db w1) h insert_sql"
  define w2 where "w2 = io (SqlPrepare insert_sql (rc = SQLITE_OK)) w1"
  have p: "prepared e insert_sql w h rc w2" using h by (simp add: prepared_def rc_def w2_def)
  show ?thesis
  proof (cases "rc = SQLITE_OK")
    case False
    then have "w' = close_handle h (sql_failure e req ''SQL error: '' h rc w2)"
      using w' h by (simp add: store_url_eq Let_def rc_def w2_def)
    from refused_effect [OF p False this] show ?thesis by auto
  next
    case True
    obtain rc1 binds1 w3 where b1: "bind_text e h insert_sql 1 token [] w2 = (rc1, binds1, w3)"
      by (metis prod_cases3)
    obtain rc2 binds2 w4 where b2: "bind_text e h insert_sql 2 url binds1 w3 = (rc2, binds2, w4)"
      by (metis prod_cases3)
    note bt1 = bind_text_effect [OF b1] and bt2 = bind_text_effect [OF b2]
    obtain step col d' where st: "sqlite3_step (sql e) (db w4) h insert_sql binds2 = (step, col, d')"
      by (metis prod_cases3)
    define w6 where "w6 = (if step \<noteq> SQLITE_DONE
        then sql_failure e req ''SQL error: '' h step (io SqlStep (w4\<lparr>db := d'\<rparr>))
        else serve_template e req path (post_data e url token) (io SqlStep (w4\<lparr>db := d'\<rparr>)))"
    have w'6: "w' = close_handle h (io SqlFinalize w6)"
      using w' h True b1 b2 st by (simp add: store_url_eq Let_def rc_def w2_def w6_def)
    have hn: "h = Some (db_file e)" and "does root (False, False) w w2 (True, True)"
      using prepared_effect(5) [OF p sq True] by blast+
    from does_trans [OF does_trans [OF this(2) bt1(4)] bt2(4)]
    have d4: "does root (False, False) w w4 (True, True)" .
    have same: "sent w4 = sent w" "db w4 = db w" "rd_count w4 = rd_count w"
      using bt1(1-3) bt2(1-3) prepared_effect(1-3) [OF p] by simp_all
    note page = insert_page_effect [OF path post refl w6_def]
    have "does root (False, False) w (io SqlFinalize w6) (h \<noteq> None, False)"
      using does_trans [OF d4 page(4)] hn by (auto intro!: does_then_io)
    then have "does root (False, False) w w' (False, False)"
      unfolding w'6 by (rule close_handle_effect)
    moreover have "rows d' = rows (db w) \<or> stores rows (db_file e) (cstr token) (cstr url) (db w) d'"
      unfolding same(2) [symmetric] using bt1(5) bt2(5)
      by (intro insert_stores [OF sq st [unfolded hn]]) (auto split: if_splits)
    ultimately show ?thesis
      using page(1-3) same by (auto simp: w'6 replied_def)
  qed
qed

section \<open>Paths\<close>

lemma has_substr_after_slash:
  "t \<noteq> [] \<Longrightarrow> last t = CHR ''/'' \<Longrightarrow> has_substr (t @ s) ''..'' \<longleftrightarrow> has_substr t ''..'' \<or> has_substr s ''..''"
proof (induction t)
  case Nil
  then show ?case by simp
next
  case (Cons x t)
  then show ?case by (cases t) auto
qed

lemma below_path_cat: "\<not> illegal_target t \<Longrightarrow> below root (path_cat root t)"
  using resolve_path_cat [of t root] by (auto simp: illegal_target_iff below_def)

lemma template_path_below:
  assumes "\<not> illegal_target (req_target req)" and "template_path e req = Ok path"
  shows "below (get_config_doc_root (state e)) path"
proof (cases "last (req_target req) = CHR ''/''")
  case False
  with assms show ?thesis by (auto simp: template_path_def Let_def below_path_cat split: if_splits)
next
  case True
  let ?t = "req_target req"
  have ne: "?t \<noteq> []" using assms(1) by (auto simp: illegal_target_iff)
  have "\<not> illegal_target (?t @ ''index.html'')"
    using assms(1) ne True by (auto simp: illegal_target_iff starts_with_iff has_substr_after_slash)
  then have "below (get_config_doc_root (state e)) (path_cat (get_config_doc_root (state e)) (?t @ ''index.html''))"
    by (rule below_path_cat)
  with assms(2) ne True show ?thesis
    by (auto simp: template_path_def Let_def path_cat_def split: if_splits)
qed

lemma template_path_ok: "\<not> illegal_target (req_target req) \<Longrightarrow> \<exists>path. template_path e req = Ok path"
  by (auto simp: template_path_def Let_def illegal_target_def)

lemma file_path_below:
  assumes "\<not> illegal_target t" and "NUL \<notin> set root"
  shows "below root (cstr (path_cat root t))"
proof -
  let ?root = "if root = [] \<or> last root \<noteq> CHR ''/'' then root else butlast root"
  have cat: "path_cat root u = ?root @ u" for u
    by (simp add: path_cat_def Let_def)
  have "NUL \<notin> set ?root"
    using assms(2) by (auto dest: in_set_butlastD)
  then have "cstr (path_cat root t) = path_cat root (cstr t)"
    by (simp add: cat cstr_append)
  moreover have "\<not> illegal_target (cstr t)"
  proof -
    have "starts_with (cstr t) ''/''"
      using assms(1) by (intro starts_with_cstr) (auto simp: illegal_target_iff NUL_def)
    moreover have "\<exists>r. t = cstr t @ r"
      unfolding cstr_def by (metis takeWhile_dropWhile_id)
    ultimately show ?thesis
      using assms(1) by (auto simp: illegal_target_iff has_substr_iff)
  qed
  ultimately show ?thesis by (simp add: below_path_cat)
qed

section \<open>Posting\<close>

lemma handle_post_effect:
  assumes sq: "sqlite_ok (sql e) rows" and ok: "handle_post e req w = Ok w'"
    and legal: "\<not> illegal_target (req_target req)"
  shows "(\<exists>r. replied e req w w' r \<and> res_status r \<noteq> 301) \<and>
         (rows (db w') = rows (db w) \<or>
          (\<exists>url token. request_url e req = Ok (Inr url) \<and> http_url url \<and>
             generate_random_filename (boost e) (rand e) (rd_count w) = Some (token, rd_count w') \<and>
             stores rows (db_file e) (cstr token) (cstr url) (db w) (db w'))) \<and>
         does (get_config_doc_root (state e)) (False, False) w w' (False, False)"
proof (cases "req_method req = Post")
  case False
  with ok show ?thesis by (auto simp: handle_post_eq replied_def)
next
  case True
  obtain path found where p: "template_path e req = Ok path" and f: "request_url e req = Ok found"
    using ok True by (auto simp: handle_post_eq Let_def res_simps)
  show ?thesis
  proof (cases found)
    case (Inl why)
    with ok True p f show ?thesis by (auto simp: handle_post_eq replied_def)
  next
    case (Inr url)
    show ?thesis
    proof (cases "http_url url")
      case False
      with ok True p f Inr show ?thesis by (auto simp: handle_post_eq replied_def)
    next
      case http: True
      obtain token n where g: "generate_random_filename (boost e) (rand e) (rd_count w) = Some (token, n)"
        and w': "w' = store_url e req path url token (w\<lparr>rd_count := n\<rparr>)"
        using ok True p f Inr http by (auto simp: handle_post_eq split: option.splits)
      from store_url_effect [OF sq template_path_below [OF legal p] True w']
      show ?thesis using f Inr http g by (auto simp: replied_def)
    qed
  qed
qed

section \<open>Dispatch\<close>

text \<open>What is assumed of the libraries, and of the configured root.\<close>

definition env_ok :: "('d \<Rightarrow> string \<Rightarrow> url_rows) \<Rightarrow> ('d, 't) env \<Rightarrow> bool" where
  "env_ok rows e \<longleftrightarrow> boost_ok (boost e) \<and> rng_ok (rand e) \<and> sqlite_ok (sql e) rows \<and>
                   NUL \<notin> set (get_config_doc_root (state e))"

lemma route_url_target: "find_route routes t = Some HandlePost \<longleftrightarrow> t = ''/post.html''"
  by (auto simp: find_route_routes accept_post accept_file)

lemma handle_request_effect:
  assumes env: "env_ok rows e" and ok: "handle_request e req w = Ok w'"
  shows "(\<exists>r. replied e req w w' r \<and>
           (res_status r = 301 \<longrightarrow> leads_to (rows (db w) (db_file e)) (cstr (drop 1 (req_target req))) r)) \<and>
         (rows (db w') = rows (db w) \<or>
          (req_target req = ''/post.html'' \<and>
           (\<exists>url token. request_url e req = Ok (Inr url) \<and> http_url url \<and>
             generate_random_filename (boost e) (rand e) (rd_count w) = Some (token, rd_count w') \<and>
             stores rows (db_file e) (cstr token) (cstr url) (db w) (db w')))) \<and>
         does (get_config_doc_root (state e)) (False, False) w w' (False, False)"
proof (cases "illegal_target (req_target req)")
  case True
  with ok show ?thesis by (auto simp: handle_request_eq replied_def)
next
  case legal: False
  have sq: "sqlite_ok (sql e) rows" and nul: "NUL \<notin> set (get_config_doc_root (state e))"
    using env by (auto simp: env_ok_def)
  show ?thesis
  proof (cases "find_route routes (req_target req)")
    case None
    with ok legal show ?thesis by (auto simp: handle_request_eq replied_def)
  next
    case (Some fn)
    with ok legal have run: "run_route e fn req w = Ok w'"
      by (simp add: handle_request_eq)
    show ?thesis
    proof (cases fn)
      case HandleFile
      then have "handle_file e req w = Ok w'" using run by simp
      from handle_file_effect [OF this file_path_below [OF legal nul]]
      show ?thesis by auto
    next
      case HandlePost
      then have "handle_post e req w = Ok w'" using run by simp
      from handle_post_effect [OF sq this legal] Some HandlePost
      show ?thesis by (auto simp: route_url_target)
    next
      case HandleGetTemplate
      then have "handle_get_template e req w = Ok w'" using run by simp
      from handle_get_template_effect [OF this template_path_below [OF legal]]
      show ?thesis by auto
    next
      case HandleGetUrl
      then have "handle_get_url e req w = Ok w'" using run by simp
      from handle_get_url_effect [OF sq this]
      have "(\<exists>r. replied e req w w' r \<and> (res_status r = 301 \<longrightarrow>
               leads_to (rows (db w) (db_file e)) (cstr (drop 1 (req_target req))) r))"
        and "rows (db w') = rows (db w)"
        and "does (get_config_doc_root (state e)) (False, False) w w' (False, False)"
        by blast+
      then show ?thesis by blast
    qed
  qed
qed

section \<open>When a handler does not return\<close>

text \<open>
  The requests whose handler throws, and those whose behaviour is undefined: a form with too many
  ampersands, a form with an escape that \<^verbatim>\<open>std::isdigit\<close> must not be given, a static file
  that exists but cannot be opened.
\<close>

definition form_post :: "request \<Rightarrow> bool" where
  "form_post req \<longleftrightarrow> req_target req = ''/post.html'' \<and> req_method req = Post \<and>
                   req_field req ''Content-Type'' = form_type"

definition flooded :: "request \<Rightarrow> bool" where
  "flooded req \<longleftrightarrow> form_post req \<and> 1000 < count_list (req_body req) CHR ''&''"

definition unsafe_form :: "request \<Rightarrow> bool" where
  "unsafe_form req \<longleftrightarrow> form_post req \<and> count_list (req_body req) CHR ''&'' \<le> 1000 \<and> \<not> form_safe (req_body req)"

definition unreadable_file :: "('d, 't) env \<Rightarrow> request \<Rightarrow> bool" where
  "unreadable_file e req \<longleftrightarrow>
     \<not> illegal_target (req_target req) \<and> find_route routes (req_target req) = Some HandleFile \<and>
     (req_method req = Get \<or> req_method req = Head) \<and>
     file_open e (cstr (path_cat (get_config_doc_root (state e)) (req_target req))) = OpenError"

lemma handle_file_outcome:
  "handle_file e req w \<noteq> Exn x \<and>
   (handle_file e req w = UB \<longleftrightarrow> (req_method req = Get \<or> req_method req = Head) \<and>
      file_open e (cstr (path_cat (get_config_doc_root (state e)) (req_target req))) = OpenError)"
  by (auto simp: handle_file_def Let_def split: open_result.split)

lemma handle_get_template_returns:
  "\<not> illegal_target (req_target req) \<Longrightarrow> \<exists>w'. handle_get_template e req w = Ok w'"
  using template_path_ok [of req e] by (auto simp: handle_get_template_def Let_def)

lemma handle_get_url_returns:
  assumes sq: "sqlite_ok (sql e) rows" and legal: "\<not> illegal_target (req_target req)"
  shows "\<exists>w'. handle_get_url e req w = Ok w'"
proof -
  have "\<exists>w'. step_select e req h binds w3 = Ok w'" for h binds w3
  proof -
    obtain step col d' where st: "sqlite3_step (sql e) (db w3) h select_sql binds = (step, col, d')"
      by (metis prod_cases3)
    show ?thesis
      using select_step(2) [OF sq st] st by (cases col) (auto simp: step_select_def Let_def)
  qed
  moreover have "req_target req \<noteq> []" using legal by (auto simp: illegal_target_def)
  ultimately show ?thesis
    by (auto simp: handle_get_url_eq Let_def rbind_eq_Ok split: prod.split) 
qed

lemma request_url_outcome:
  assumes "boost_ok (boost e)"
  shows "(request_url e req = UB \<longleftrightarrow> req_field req ''Content-Type'' = form_type \<and>
            count_list (req_body req) CHR ''&'' \<le> 1000 \<and> \<not> form_safe (req_body req)) \<and>
         (request_url e req = Exn x \<longleftrightarrow> x = LengthError \<and> req_field req ''Content-Type'' = form_type \<and>
            1000 < count_list (req_body req) CHR ''&'')"
proof -
  have "(form_url e req = UB \<longleftrightarrow> count_list (req_body req) CHR ''&'' \<le> 1000 \<and> \<not> form_safe (req_body req)) \<and>
        (form_url e req = Exn x \<longleftrightarrow> x = LengthError \<and> 1000 < count_list (req_body req) CHR ''&'')"
    using assms
    by (auto simp: form_url_def parse_qsl_eq default_maxparams_def res_simps split: option.splits if_splits)
  then show ?thesis by (simp add: request_url_def Let_def)
qed

lemma handle_post_outcome:
  assumes env: "env_ok rows e" and legal: "\<not> illegal_target (req_target req)"
  shows "(handle_post e req w = UB \<longleftrightarrow> req_method req = Post \<and> request_url e req = UB) \<and>
         (handle_post e req w = Exn x \<longleftrightarrow> req_method req = Post \<and> request_url e req = Exn x)"
proof -
  have b: "boost_ok (boost e)" and r: "rng_ok (rand e)"
    using env by (auto simp: env_ok_def)
  obtain path where p: "template_path e req = Ok path"
    using template_path_ok [OF legal] by blast
  obtain t where g: "generate_random_filename (boost e) (rand e) (rd_count w) = Some (t, Suc (rd_count w))"
    using generate_random_filename_token [OF b r] by blast
  show ?thesis
    using p g
    by (cases "request_url e req") (auto simp: handle_post_eq Let_def split: sum.split)
qed

lemma handle_request_outcome:
  assumes env: "env_ok rows e"
  shows "(handle_request e req w = UB \<longleftrightarrow> unsafe_form req \<or> unreadable_file e req) \<and>
         (handle_request e req w = Exn x \<longleftrightarrow> x = LengthError \<and> flooded req)"
proof (cases "illegal_target (req_target req)")
  case True
  moreover have "\<not> illegal_target ''/post.html''" by code_simp
  ultimately show ?thesis
    by (auto simp: handle_request_eq unsafe_form_def flooded_def form_post_def unreadable_file_def)
next
  case legal: False
  have sq: "sqlite_ok (sql e) rows" and b: "boost_ok (boost e)" using env by (simp_all add: env_ok_def)
  note target = route_url_target [of "req_target req"]
  show ?thesis
  proof (cases "find_route routes (req_target req)")
    case None
    with legal target show ?thesis
      by (auto simp: handle_request_eq unsafe_form_def flooded_def form_post_def unreadable_file_def)
  next
    case (Some fn)
    have run: "handle_request e req w = run_route e fn req w"
      using legal Some by (simp add: handle_request_eq)
    show ?thesis
    proof (cases fn)
      case HandlePost
      then have "req_target req = ''/post.html''" using Some target by simp
      then show ?thesis
        using run HandlePost Some handle_post_outcome [OF env legal, of w x] request_url_outcome [OF b, of req x]
        by (auto simp: unsafe_form_def flooded_def form_post_def unreadable_file_def)
    next
      case HandleFile
      then have "req_target req \<noteq> ''/post.html''" using Some target by auto
      then show ?thesis
        using run HandleFile Some legal handle_file_outcome [of e req w x]
        by (simp add: unsafe_form_def flooded_def form_post_def unreadable_file_def)
    next
      case HandleGetTemplate
      then have "req_target req \<noteq> ''/post.html''" using Some target by auto
      moreover obtain w' where "handle_request e req w = Ok w'"
        using run HandleGetTemplate handle_get_template_returns [OF legal] by auto
      ultimately show ?thesis
        using HandleGetTemplate Some by (simp add: unsafe_form_def flooded_def form_post_def unreadable_file_def)
    next
      case HandleGetUrl
      then have "req_target req \<noteq> ''/post.html''" using Some target by auto
      moreover obtain w' where "handle_request e req w = Ok w'"
        using run HandleGetUrl handle_get_url_returns [OF sq legal] by auto
      ultimately show ?thesis
        using HandleGetUrl Some by (simp add: unsafe_form_def flooded_def form_post_def unreadable_file_def)
    qed
  qed
qed

end
