(* ===== verification/Shortener.thy ===== *)
theory Shortener
  imports Request_Effects
begin

text \<open>
  The URL shortener as a whole: the table of links across requests. The abstract specification is
  a finite map from tokens to URLs that only grows, one fresh link at a time; the theory shows that
  \<open>handle_request\<close> implements it on the rows of the database, keeps the table's invariant, and
  that a posted URL is found again under its token, from then on and forever.
\<close>

section \<open>Links\<close>

abbreviation table :: "('d \<Rightarrow> string \<Rightarrow> url_rows) \<Rightarrow> ('d, 't) env \<Rightarrow> 'd world \<Rightarrow> url_rows" where
  "table rows e w \<equiv> rows (db w) (db_file e)"

definition table_ok :: "url_rows \<Rightarrow> bool" where
  "table_ok tab \<longleftrightarrow> distinct (map fst tab) \<and> distinct (map snd tab) \<and>
     (\<forall>(t, u)\<in>set tab. is_token t \<and> http_url u \<and> NUL \<notin> set u)"

lemma table_ok_append:
  "table_ok tab \<Longrightarrow> t \<notin> fst ` set tab \<Longrightarrow> u \<notin> snd ` set tab \<Longrightarrow> is_token t \<Longrightarrow> http_url u \<Longrightarrow>
     NUL \<notin> set u \<Longrightarrow> table_ok (tab @ [(t, u)])"
  by (auto simp: table_ok_def)

lemma table_ok_get: "table_ok tab \<Longrightarrow> (t, u) \<in> set tab \<longleftrightarrow> map_of tab t = Some u"
  by (simp add: table_ok_def)

lemma table_ok_url: "table_ok tab \<Longrightarrow> (t, u) \<in> set tab \<Longrightarrow> http_url u \<and> cstr u = u"
  by (auto simp: table_ok_def cstr_id)

text \<open>The specification: a step keeps the links, or adds one under a fresh token.\<close>

definition link_step :: "(string \<rightharpoonup> string) \<Rightarrow> (string \<rightharpoonup> string) \<Rightarrow> bool" where
  "link_step m m' \<longleftrightarrow>
     m' = m \<or> (\<exists>t u. t \<notin> dom m \<and> u \<notin> ran m \<and> is_token t \<and> http_url u \<and> m' = m(t \<mapsto> u))"

lemma link_step_le: "link_step m m' \<Longrightarrow> m \<subseteq>\<^sub>m m'"
  unfolding link_step_def using map_le_upd by (metis map_le_refl map_le_imp_upd_le domIff fun_upd_None_if_notin_dom)

lemma map_of_snoc: "t \<notin> fst ` set tab \<Longrightarrow> map_of (tab @ [(t, u)]) = (map_of tab)(t \<mapsto> u)"
proof (rule ext)
  fix x
  assume t: "t \<notin> fst ` set tab"
  then have "map_of tab t = None" by (simp add: map_of_eq_None_iff)
  then show "map_of (tab @ [(t, u)]) x = ((map_of tab)(t \<mapsto> u)) x"
    by (simp add: map_add_def split: option.split)
qed

lemma ran_map_of: "ran (map_of tab) \<subseteq> snd ` set tab"
  using map_of_SomeD by (force simp: ran_def)

text \<open>On the rows of the table: they stay, or one new link is appended.\<close>

definition row_step :: "url_rows \<Rightarrow> url_rows \<Rightarrow> bool" where
  "row_step tab tab' \<longleftrightarrow>
     tab' = tab \<or>
     (\<exists>t u. is_token t \<and> http_url u \<and> NUL \<notin> set u \<and> t \<notin> fst ` set tab \<and> u \<notin> snd ` set tab \<and>
            tab' = tab @ [(t, u)])"

lemma row_step_refl [simp]: "row_step tab tab"
  by (simp add: row_step_def)

lemma row_step_ok: "row_step tab tab' \<Longrightarrow> table_ok tab \<Longrightarrow> table_ok tab'"
  by (auto simp: row_step_def intro: table_ok_append)

lemma row_step_link:
  assumes "row_step tab tab'"
  shows "link_step (map_of tab) (map_of tab')"
  using assms unfolding row_step_def
proof (elim disjE exE conjE)
  fix t u
  assume new: "is_token t" "http_url u" "t \<notin> fst ` set tab" "u \<notin> snd ` set tab" and tab: "tab' = tab @ [(t, u)]"
  have "t \<notin> dom (map_of tab)"
    using new(3) by (simp add: dom_map_of_conv_image_fst)
  moreover have "u \<notin> ran (map_of tab)"
    using new(4) subsetD [OF ran_map_of] by (rule contrapos_nn)
  moreover have "map_of tab' = (map_of tab)(t \<mapsto> u)"
    unfolding tab using new(3) by (rule map_of_snoc)
  ultimately show ?thesis
    unfolding link_step_def using new(1,2) by blast
qed (simp add: link_step_def)

section \<open>One request\<close>

lemma token_no_NUL: "is_token t \<Longrightarrow> NUL \<notin> set t"
proof -
  assume "is_token t"
  then obtain stem e where t: "t = stem @ e" "e \<in> set ext" "set stem \<subseteq> set charlist"
    using token_parts by blast
  have "list_all (\<lambda>e. NUL \<notin> set e) ext" and "NUL \<notin> set charlist"
    by (simp_all add: ext_def charlist_def NUL_def)
  then show ?thesis using t by (auto simp: list_all_iff)
qed

lemma cstr_token: "is_token t \<Longrightarrow> cstr t = t"
  by (simp add: token_no_NUL cstr_id)

lemma http_url_cstr: "http_url u \<Longrightarrow> http_url (cstr u)"
  by (auto simp: http_url_def NUL_def intro!: starts_with_cstr)

lemma request_table:
  assumes env: "env_ok rows e" and ok: "handle_request e req w = Ok w'"
  shows "row_step (table rows e w) (table rows e w')"
proof -
  have b: "boost_ok (boost e)" and r: "rng_ok (rand e)"
    using env by (auto simp: env_ok_def)
  consider (same) "rows (db w') = rows (db w)"
    | (new) url token where "http_url url"
        "generate_random_filename (boost e) (rand e) (rd_count w) = Some (token, rd_count w')"
        "stores rows (db_file e) (cstr token) (cstr url) (db w) (db w')"
    using handle_request_effect [OF env ok] by blast
  then show ?thesis
  proof cases
    case same
    then show ?thesis by simp
  next
    case new
    have "is_token token"
      using new(2) generate_random_filename_token [OF b r, of "rd_count w"] by auto
    moreover have "http_url (cstr url)" "NUL \<notin> set (cstr url)"
      using new(1) by (simp_all add: http_url_cstr NUL_notin_cstr)
    ultimately show ?thesis
      using new(3) cstr_token unfolding stores_def row_step_def by (metis fun_upd_same)
  qed
qed

lemma request_table_ok:
  "env_ok rows e \<Longrightarrow> handle_request e req w = Ok w' \<Longrightarrow> table_ok (table rows e w) \<Longrightarrow>
     table_ok (table rows e w')"
  by (rule row_step_ok [OF request_table])

lemma request_link_step:
  "env_ok rows e \<Longrightarrow> handle_request e req w = Ok w' \<Longrightarrow>
     link_step (map_of (table rows e w)) (map_of (table rows e w'))"
  by (rule row_step_link [OF request_table])

section \<open>Many requests\<close>

text \<open>
  The interface between a server and its sessions: a step that answers a request, the responses so
  far, an invariant. The second interface adds links that a step never changes.
\<close>

fun run_steps :: "('r \<Rightarrow> 'w \<Rightarrow> 'w res) \<Rightarrow> 'r list \<Rightarrow> 'w \<Rightarrow> 'w res" where
  "run_steps f [] w = Ok w"
| "run_steps f (r # rs) w = rbind (f r w) (run_steps f rs)"

lemma run_steps_append: "run_steps f (as @ bs) w = rbind (run_steps f as w) (run_steps f bs)"
proof (induction as arbitrary: w)
  case (Cons a as)
  then show ?case by (cases "f a w") simp_all
qed simp

locale responder =
  fixes step :: "'r \<Rightarrow> 'w \<Rightarrow> 'w res"
    and responses :: "'w \<Rightarrow> 'm list"
    and matches :: "'r \<Rightarrow> 'm \<Rightarrow> bool"
    and inv :: "'w \<Rightarrow> bool"
  assumes step_inv: "inv w \<Longrightarrow> step r w = Ok w' \<Longrightarrow> inv w'"
    and step_replies: "inv w \<Longrightarrow> step r w = Ok w' \<Longrightarrow> \<exists>m. responses w' = responses w @ [m] \<and> matches r m"
begin

lemma run_inv: "inv w \<Longrightarrow> run_steps step rs w = Ok w' \<Longrightarrow> inv w'"
proof (induction rs arbitrary: w)
  case (Cons r rs)
  then obtain w1 where "step r w = Ok w1" "run_steps step rs w1 = Ok w'"
    by (auto simp: res_simps)
  with Cons step_inv show ?case by blast
qed simp

lemma run_replies:
  "inv w \<Longrightarrow> run_steps step rs w = Ok w' \<Longrightarrow>
     \<exists>ms. responses w' = responses w @ ms \<and> list_all2 matches rs ms"
proof (induction rs arbitrary: w)
  case (Cons r rs)
  then obtain w1 where w1: "step r w = Ok w1" "run_steps step rs w1 = Ok w'"
    by (auto simp: res_simps)
  obtain m where m: "responses w1 = responses w @ [m]" "matches r m"
    using step_replies [OF Cons.prems(1) w1(1)] by blast
  obtain ms where "responses w' = responses w1 @ ms" "list_all2 matches rs ms"
    using Cons.IH [OF step_inv [OF Cons.prems(1) w1(1)] w1(2)] by blast
  with m have "responses w' = responses w @ m # ms \<and> list_all2 matches (r # rs) (m # ms)"
    by simp
  then show ?case by blast
qed simp

end

locale link_store = responder step responses matches inv
  for step :: "'r \<Rightarrow> 'w \<Rightarrow> 'w res" and responses :: "'w \<Rightarrow> 'm list"
    and matches :: "'r \<Rightarrow> 'm \<Rightarrow> bool" and inv :: "'w \<Rightarrow> bool" +
  fixes links :: "'w \<Rightarrow> 'k \<rightharpoonup> 'v"
  assumes step_grows: "inv w \<Longrightarrow> step r w = Ok w' \<Longrightarrow> links w \<subseteq>\<^sub>m links w'"
begin

lemma run_grows: "inv w \<Longrightarrow> run_steps step rs w = Ok w' \<Longrightarrow> links w \<subseteq>\<^sub>m links w'"
proof (induction rs arbitrary: w)
  case (Cons r rs)
  then obtain w1 where w1: "step r w = Ok w1" "run_steps step rs w1 = Ok w'"
    by (auto simp: res_simps)
  then show ?case
    using Cons.IH [OF step_inv [OF Cons.prems(1) w1(1)] w1(2)] step_grows [OF Cons.prems(1) w1(1)]
    by (rule_tac map_le_trans)
qed simp

lemma run_keeps: "inv w \<Longrightarrow> run_steps step rs w = Ok w' \<Longrightarrow> links w k = Some v \<Longrightarrow> links w' k = Some v"
  using run_grows by (metis domI map_le_def)

end

text \<open>\<open>handle_request\<close> provides both interfaces.\<close>

definition store_inv :: "('d \<Rightarrow> string \<Rightarrow> url_rows) \<Rightarrow> ('d, 't) env \<Rightarrow> 'd world \<Rightarrow> bool" where
  "store_inv rows e w \<longleftrightarrow> env_ok rows e \<and> table_ok (table rows e w)"

interpretation shortener: link_store "handle_request e" sent "answers (beast_version e)"
  "store_inv rows e" "\<lambda>w. map_of (table rows e w)" for e :: "('d, 't) env" and rows
proof unfold_locales
  fix w w' :: "'d world" and r
  assume inv: "store_inv rows e w" and ok: "handle_request e r w = Ok w'"
  have env: "env_ok rows e" and tab: "table_ok (table rows e w)"
    using inv by (auto simp: store_inv_def)
  show "store_inv rows e w'"
    using env request_table_ok [OF env ok tab] by (simp add: store_inv_def)
  show "\<exists>m. sent w' = sent w @ [m] \<and> answers (beast_version e) r m"
    using handle_request_effect [OF env ok] by (auto simp: replied_def)
  show "map_of (table rows e w) \<subseteq>\<^sub>m map_of (table rows e w')"
    using request_link_step [OF env ok] by (rule link_step_le)
qed

section \<open>When SQLite does not fail\<close>

lemma make_handle_available:
  "sqlite_available (sql e) rows \<Longrightarrow> make_sqlite3_handle e p w = (Some p, io (SqlOpen p True) w)"
  by (simp add: make_sqlite3_handle_def sqlite_available_def SQLITE_OK_def)

lemma bind_available:
  "sqlite_available (sql e) rows \<Longrightarrow>
     bind_text e (Some p) stmt i v binds w = (SQLITE_OK, (i, cstr v) # binds, io (SqlBind i (cstr v)) w)"
  by (simp add: bind_text_def sqlite_available_def)

lemma prepare_available:
  "sqlite_available (sql e) rows \<Longrightarrow> sqlite3_prepare (sql e) d (Some p) stmt = SQLITE_OK"
  by (simp add: sqlite_available_def)

lemma select_available:
  assumes "sqlite_available (sql e) rows" and "map_of binds 1 = Some t"
  shows "fst (sqlite3_step (sql e) d (Some p) select_sql binds) =
           (if t \<in> fst ` set (rows d p) then SQLITE_ROW else SQLITE_DONE)"
  using assms unfolding sqlite_available_def by blast

lemma insert_available:
  assumes "sqlite_available (sql e) rows" and "map_of binds 1 = Some t" and "map_of binds 2 = Some u"
    and "t \<notin> fst ` set (rows d p)" and "u \<notin> snd ` set (rows d p)"
  shows "fst (sqlite3_step (sql e) d (Some p) insert_sql binds) = SQLITE_DONE"
  using assms unfolding sqlite_available_def by blast

lemma get_url_available:
  assumes sq: "sqlite_ok (sql e) rows" and av: "sqlite_available (sql e) rows"
    and get: "req_method req = Get" and target: "req_target req = CHR ''/'' # t" and t: "NUL \<notin> set t"
    and dist: "distinct (map fst (table rows e w))"
  shows "\<exists>w'. handle_get_url e req w = Ok w' \<and> rows (db w') = rows (db w) \<and>
           sent w' = sent w @ [redirect_permanent (beast_version e) req
             (case map_of (table rows e w) t of None \<Rightarrow> rickroll | Some u \<Rightarrow> cstr u)]"
proof -
  define w3 where "w3 = io (SqlBind 1 t) (io (SqlPrepare select_sql True) (io (SqlOpen (db_file e) True) w))"
  obtain rc col d' where st: "sqlite3_step (sql e) (db w) (Some (db_file e)) select_sql [(1, t)] = (rc, col, d')"
    by (metis prod_cases3)
  have w3: "db w3 = db w" "sent w3 = sent w" by (simp_all add: w3_def)
  have run: "handle_get_url e req w =
      rbind (step_select e req (Some (db_file e)) [(1, t)] w3)
        (\<lambda>w4. Ok (close_handle (Some (db_file e)) (io SqlFinalize w4)))"
    using get target t
    by (simp add: handle_get_url_eq make_handle_available [OF av] prepare_available [OF av]
        bind_available [OF av] w3_def cstr_id)
  note sel = select_step [OF sq st]
  have rc: "rc = (if t \<in> fst ` set (table rows e w) then SQLITE_ROW else SQLITE_DONE)"
    using select_available [OF av, of "[(1, t)]" t "db w" "db_file e"] st by simp
  show ?thesis
  proof (cases "map_of (table rows e w) t")
    case None
    then have "rc = SQLITE_DONE" using rc by (simp add: map_of_eq_None_iff)
    then show ?thesis
      using run st w3 None sel(1)
      by (simp add: step_select_def SQLITE_ROW_def SQLITE_DONE_def io_def close_handle_def send_def)
  next
    case (Some u)
    then have row: "rc = SQLITE_ROW" using rc map_of_SomeD by force
    then obtain v where "col = Some v" "(t, v) \<in> set (table rows e w)"
      using sel(2) by auto
    moreover from this(2) have "v = u"
      using dist Some by (metis map_of_eq_Some_iff option.inject)
    ultimately show ?thesis
      using run st w3 Some row sel(1)
      by (simp add: step_select_def SQLITE_ROW_def io_def close_handle_def send_def)
  qed
qed

text \<open>The page a template gives, and the answer when it fails.\<close>

definition page_response :: "('d, 't) env \<Rightarrow> request \<Rightarrow> string \<Rightarrow> string smap \<Rightarrow> response" where
  "page_response e req path data =
     (case parse_template (templates e) path of
        Inl what \<Rightarrow> bad_request (beast_version e) req (''Could not serve page: '' @ cstr what)
      | Inr temp \<Rightarrow>
          (case render (templates e) temp data of
             Inl what \<Rightarrow> bad_request (beast_version e) req (''Could not serve page: '' @ cstr what)
           | Inr result \<Rightarrow> ok_string (beast_version e) req result))"

lemma page_response_status [simp]: "res_status (page_response e req path data) \<noteq> 500"
  by (simp add: page_response_def split: sum.split)

lemma serve_template_eq:
  "serve_template e req path data w = send (page_response e req path data) (io (LoadTemplate path) w)"
  by (simp add: serve_template_def page_response_def Let_def split: sum.split)

lemma store_url_available:
  assumes sq: "sqlite_ok (sql e) rows" and av: "sqlite_available (sql e) rows"
    and w': "w' = store_url e req path url token w"
  shows "if cstr token \<in> fst ` set (table rows e w) \<or> cstr url \<in> snd ` set (table rows e w)
         then rows (db w') = rows (db w) \<and> (\<exists>r. sent w' = sent w @ [r] \<and> res_status r = 500)
         else stores rows (db_file e) (cstr token) (cstr url) (db w) (db w') \<and>
              sent w' = sent w @ [page_response e req path (post_data e url token)]"
proof -
  let ?h = "Some (db_file e)"
  let ?binds = "[(2, cstr url), (1, cstr token)]"
  define w4 where "w4 = io (SqlBind 2 (cstr url)) (io (SqlBind 1 (cstr token))
      (io (SqlPrepare insert_sql True) (io (SqlOpen (db_file e) True) w)))"
  define data where "data = post_data e url token"
  obtain rc col d' where st: "sqlite3_step (sql e) (db w) ?h insert_sql ?binds = (rc, col, d')"
    by (metis prod_cases3)
  define w5 where "w5 = io SqlStep (w4\<lparr>db := d'\<rparr>)"
  have w4: "db w4 = db w" "sent w4 = sent w" by (simp_all add: w4_def)
  have w5: "db w5 = d'" "sent w5 = sent w" using w4 by (simp_all add: w5_def io_def)
  have run: "w' = close_handle ?h (io SqlFinalize
      (if rc \<noteq> SQLITE_DONE then sql_failure e req ''SQL error: '' ?h rc w5
       else serve_template e req path data w5))"
    unfolding w'
    using st w4(1)
    by (simp add: store_url_eq make_handle_available [OF av] prepare_available [OF av]
        bind_available [OF av] w4_def w5_def data_def Let_def)
  have tmpl: "db (serve_template e req path data w5) = d'"
    "sent (serve_template e req path data w5) = sent w @ [page_response e req path (post_data e url token)]"
    using w5 by (simp_all add: serve_template_eq data_def)
  note ins = insert_step [OF sq st]
  show ?thesis
  proof (cases "cstr token \<in> fst ` set (table rows e w) \<or> cstr url \<in> snd ` set (table rows e w)")
    case True
    then have "rc \<noteq> SQLITE_DONE" using ins by (intro notI) simp
    then have "rows d' = rows (db w)" "w' = close_handle ?h (io SqlFinalize (sql_failure e req ''SQL error: '' ?h rc w5))"
      using ins run by simp_all
    then show ?thesis using True w5 by simp
  next
    case False
    then have "rc = SQLITE_DONE"
      using insert_available [OF av, of ?binds "cstr token" "cstr url" "db w" "db_file e"] st by simp
    then have "db w' = d'" and "sent w' = sent w @ [page_response e req path (post_data e url token)]"
      and "rows d' = (rows (db w))(db_file e := table rows e w @ [(cstr token, cstr url)])"
      using run tmpl ins by auto
    with False show ?thesis by (simp add: stores_def)
  qed
qed

lemma post_available:
  assumes env: "env_ok rows e" and av: "sqlite_available (sql e) rows"
    and post: "req_method req = Post" and target: "req_target req = ''/post.html''"
    and url: "request_url e req = Ok (Inr url)" "http_url url"
  shows "\<exists>w' token. handle_request e req w = Ok w' \<and> is_token token \<and>
           generate_random_filename (boost e) (rand e) (rd_count w) = Some (token, Suc (rd_count w)) \<and>
           (if token \<in> fst ` set (table rows e w) \<or> cstr url \<in> snd ` set (table rows e w)
            then rows (db w') = rows (db w) \<and> (\<exists>r. sent w' = sent w @ [r] \<and> res_status r = 500)
            else stores rows (db_file e) token (cstr url) (db w) (db w') \<and>
                 sent w' = sent w @ [page_response e req (path_cat (get_config_doc_root (state e)) ''/post.html'')
                   (post_data e url token)])"
proof -
  have b: "boost_ok (boost e)" and r: "rng_ok (rand e)" and sq: "sqlite_ok (sql e) rows"
    using env by (auto simp: env_ok_def)
  obtain token where g: "generate_random_filename (boost e) (rand e) (rd_count w) = Some (token, Suc (rd_count w))"
    and tok: "is_token token"
    using generate_random_filename_token [OF b r, of "rd_count w"] by blast
  have legal: "\<not> illegal_target (req_target req)" unfolding target by code_simp
  define path where "path = path_cat (get_config_doc_root (state e)) ''/post.html''"
  have p: "template_path e req = Ok path"
    by (simp add: template_path_def target path_def)
  define w' where "w' = store_url e req path url token (w\<lparr>rd_count := Suc (rd_count w)\<rparr>)"
  have w0: "db (w\<lparr>rd_count := Suc (rd_count w)\<rparr>) = db w" "sent (w\<lparr>rd_count := Suc (rd_count w)\<rparr>) = sent w"
    by simp_all
  have "find_route routes (req_target req) = Some HandlePost"
    unfolding route_url_target by (rule target)
  then have "handle_request e req w = Ok w'"
    using legal post p url g by (simp add: handle_request_eq handle_post_eq w'_def)
  moreover have "if token \<in> fst ` set (table rows e w) \<or> cstr url \<in> snd ` set (table rows e w)
      then rows (db w') = rows (db w) \<and> (\<exists>r. sent w' = sent w @ [r] \<and> res_status r = 500)
      else stores rows (db_file e) token (cstr url) (db w) (db w') \<and>
           sent w' = sent w @ [page_response e req path (post_data e url token)]"
    using store_url_available [OF sq av w'_def] by (simp only: cstr_token [OF tok] w0)
  ultimately show ?thesis using tok g unfolding path_def by blast
qed

lemma lookup_available:
  assumes env: "env_ok rows e" and av: "sqlite_available (sql e) rows" and tab: "table_ok (table rows e w)"
    and get: "req_method req = Get" and target: "req_target req = CHR ''/'' # t" and t: "is_token t"
  shows "\<exists>w'. handle_request e req w = Ok w' \<and> rows (db w') = rows (db w) \<and>
           sent w' = sent w @ [redirect_permanent (beast_version e) req
             (case map_of (table rows e w) t of None \<Rightarrow> rickroll | Some u \<Rightarrow> u)]"
proof -
  have sq: "sqlite_ok (sql e) rows" using env by (simp add: env_ok_def)
  have "distinct (map fst (table rows e w))" using tab by (simp add: table_ok_def)
  from get_url_available [OF sq av get target token_no_NUL [OF t] this]
  have "\<exists>w'. handle_get_url e req w = Ok w' \<and> rows (db w') = rows (db w) \<and>
           sent w' = sent w @ [redirect_permanent (beast_version e) req
             (case map_of (table rows e w) t of None \<Rightarrow> rickroll | Some u \<Rightarrow> u)]"
    using table_ok_url [OF tab] by (auto split: option.splits dest: map_of_SomeD)
  moreover have "handle_request e req w = handle_get_url e req w"
    using token_route [OF t] target by (simp add: handle_request_eq)
  ultimately show ?thesis by simp
qed

lemma only_post_stores:
  assumes env: "env_ok rows e" and ok: "handle_request e req w = Ok w'"
    and new: "rows (db w') \<noteq> rows (db w)"
  shows "req_method req = Post \<and> req_target req = ''/post.html''"
proof (rule ccontr)
  have target: "req_target req = ''/post.html''"
    using handle_request_effect [OF env ok] new by blast
  then have route: "find_route routes (req_target req) = Some HandlePost"
    by (simp only: route_url_target)
  assume "\<not> ?thesis"
  with target have "req_method req \<noteq> Post" by simp
  with ok new route show False
    by (auto simp: handle_request_eq handle_post_eq split: if_splits)
qed

section \<open>A concrete server\<close>

definition demo_env :: "(string \<Rightarrow> url_rows, string) env" where
  "demo_env =
     \<lparr>state = ServerState empty_toml sample_map, boost = boost_ref, rand = rng_low, sql = sqlite_ref,
      parser = (\<lambda>_ _. []), templates = \<lparr>parse_template = Inr, render = (\<lambda>t _. Inr t)\<rparr>,
      file_open = (\<lambda>_. NoSuchFile), beast_version = ''Boost.Beast/300''\<rparr>"

definition demo_world :: "(string \<Rightarrow> url_rows) world" where
  "demo_world = \<lparr>db = (\<lambda>_. []), rd_count = 0, log = [], trace = [], sent = []\<rparr>"

definition demo_post :: request where
  "demo_post = \<lparr>req_method = Post, req_target = ''/post.html'', req_version = 11, req_keep_alive = True,
     req_field = (\<lambda>n. if n = ''Content-Type'' then form_type else []), req_body = ''url=http://a.b''\<rparr>"

definition demo_get :: "string \<Rightarrow> request" where
  "demo_get t = \<lparr>req_method = Get, req_target = t, req_version = 11, req_keep_alive = True,
     req_field = (\<lambda>n. []), req_body = []\<rparr>"

lemma demo_env_simps [simp]:
  "boost demo_env = boost_ref" "rand demo_env = rng_low" "sql demo_env = sqlite_ref"
  "get_config_doc_root (state demo_env) = ''.''" "db_file demo_env = ''urls.db''"
  by (simp_all add: demo_env_def ServerState_def config_defs empty_toml_def cstr_def NUL_def)

lemma demo_env_ok [simp]: "env_ok (\<lambda>d. d) demo_env"
  by (simp add: env_ok_def NUL_def)

lemma demo_store_inv [simp]: "store_inv (\<lambda>d. d) demo_env demo_world"
  by (simp add: store_inv_def demo_world_def table_ok_def)

lemma demo_table [simp]: "db demo_world p = []"
  by (simp add: demo_world_def)

lemma demo_request_url: "request_url demo_env demo_post = Ok (Inr ''http://a.b'')"
  by code_simp

lemma demo_http: "http_url ''http://a.b''"
  by code_simp

end
