(* ===== verification/Session.thy ===== *)
theory Session
  imports Shortener
begin

text \<open>
  \<^verbatim>\<open>include/session.hpp\<close> and \<^verbatim>\<open>src/session.cpp\<close>: the HTTP session with its
  queue of responses, as a plain and as an SSL session. The asynchronous operations of Asio and
  Beast are part of the state as operations in flight; a completion handler is called by a step of
  the relation at the end, in any order and with any error code, before the operation times out. The
  sessions share the world of the request handlers, which may change between two steps of a session.
\<close>

section \<open>The state of a session\<close>

datatype stream_kind = Plain | Ssl        \<comment> \<open>the class \<^verbatim>\<open>Derived\<close>\<close>

text \<open>
  The members of the class, the operations in flight, what has happened so far, and the time: the
  clock since the launch, the time last set by \<^verbatim>\<open>expires_after\<close> on the stream, and
  for each kind of operation the time by which the last one started completes.
\<close>

record session =
  kind :: stream_kind
  items :: "response list"            \<comment> \<open>\<^verbatim>\<open>queue_.items_\<close>\<close>
  inbuf :: string                     \<comment> \<open>\<^verbatim>\<open>buffer_\<close>: bytes received and not yet used\<close>
  body_limit :: "nat option"          \<comment> \<open>of \<^verbatim>\<open>*parser_\<close>, \<open>None\<close> before the first \<^verbatim>\<open>emplace\<close>\<close>
  handshakes :: nat
  reads :: nat
  writes :: "response list"
  shutdowns :: nat
  send_closed :: bool                 \<comment> \<open>\<^verbatim>\<open>shutdown_send\<close> was called on the socket\<close>
  requests :: "request list"
  started :: "response list"          \<comment> \<open>responses passed to \<^verbatim>\<open>async_write\<close>\<close>
  finished :: "response list"         \<comment> \<open>responses whose write completed without error\<close>
  read_end :: bool                    \<comment> \<open>a read completed with an error or the end of the stream\<close>
  write_end :: bool                   \<comment> \<open>a write failed, or completed and closes the connection\<close>
  errs :: "syslog_entry list"
  clock :: nat                        \<comment> \<open>in nanoseconds\<close>
  expiry :: "nat option"
  handshake_due :: "nat option"
  read_due :: "nat option"
  write_due :: "nat option"
  shutdown_due :: "nat option"

section \<open>Time limits\<close>

text \<open>
  Beast's timer, as its documentation describes it: a time set on the stream applies to the
  operations initiated after it, until another is set; an operation initiated when it has passed
  times out at once.
\<close>

definition seconds :: "nat \<Rightarrow> nat" where
  "seconds n = n * 1000000000"

definition expires_after :: "nat \<Rightarrow> session \<Rightarrow> session" where
  "expires_after d s = s\<lparr>expiry := Some (clock s + d)\<rparr>"

definition time_limit :: "session \<Rightarrow> nat option" where
  "time_limit s = map_option (max (clock s)) (expiry s)"

section \<open>The queue\<close>

definition queue_limit :: nat where
  "queue_limit = 8"

text \<open>The constructor reserves room and starts empty.\<close>

definition new_queue :: "response list" where
  "new_queue = []"

definition is_full :: "session \<Rightarrow> bool" where
  "is_full s \<longleftrightarrow> queue_limit \<le> length (items s)"

definition start_write :: "response \<Rightarrow> session \<Rightarrow> session" where
  "start_write m s =
     s\<lparr>writes := writes s @ [m], started := started s @ [m], write_due := time_limit s\<rparr>"

text \<open>\<^verbatim>\<open>queue::on_write\<close>; a failed assertion is undefined behaviour.\<close>

definition queue_on_write :: "session \<Rightarrow> (bool \<times> session) res" where
  "queue_on_write s =
     (if items s = [] then UB
      else
        let was_full = is_full s;
            s1 = s\<lparr>items := tl (items s)\<rparr>;
            s2 = (if items s1 \<noteq> [] then start_write (hd (items s1)) s1 else s1)
        in Ok (was_full, s2))"

text \<open>\<^verbatim>\<open>queue::operator()\<close>.\<close>

definition queue_push :: "response \<Rightarrow> session \<Rightarrow> session" where
  "queue_push msg s =
     (let s1 = s\<lparr>items := items s @ [msg]\<rparr> in
      if length (items s1) = 1 then start_write (hd (items s1)) s1 else s1)"

section \<open>The handlers of a session\<close>

definition do_read :: "session \<Rightarrow> session" where
  "do_read s =
     (let s1 = expires_after (seconds 30) (s\<lparr>body_limit := Some 10000\<rparr>)
      in s1\<lparr>reads := reads s1 + 1, read_due := time_limit s1\<rparr>)"

text \<open>\<^verbatim>\<open>do_eof\<close> of the two classes, and the call through \<^verbatim>\<open>derived()\<close>.\<close>

definition plain_do_eof :: "session \<Rightarrow> session" where
  "plain_do_eof s = s\<lparr>send_closed := True\<rparr>"

definition ssl_do_eof :: "session \<Rightarrow> session" where
  "ssl_do_eof s =
     (let s1 = expires_after (seconds 30) s
      in s1\<lparr>shutdowns := shutdowns s1 + 1, shutdown_due := time_limit s1\<rparr>)"

definition do_eof :: "session \<Rightarrow> session" where
  "do_eof s = (case kind s of Plain \<Rightarrow> plain_do_eof s | Ssl \<Rightarrow> ssl_do_eof s)"

lemmas do_eof_defs = do_eof_def plain_do_eof_def ssl_do_eof_def Let_def expires_after_def

definition log_fail :: "error_code \<Rightarrow> string \<Rightarrow> session \<Rightarrow> session" where
  "log_fail ec what s = s\<lparr>errs := errs s @ fail ec what\<rparr>"

text \<open>
  \<^verbatim>\<open>on_read\<close>: the responses that \<^verbatim>\<open>handle_request\<close> sends go to the queue, and
  another request is read unless it is full.
\<close>

definition after_request :: "response list \<Rightarrow> session \<Rightarrow> session" where
  "after_request rs s = (let s1 = fold queue_push rs s in if \<not> is_full s1 then do_read s1 else s1)"

definition on_read ::
    "('d, 't) env \<Rightarrow> error_code \<Rightarrow> request \<Rightarrow> session \<Rightarrow> 'd world \<Rightarrow> (session \<times> 'd world) res" where
  "on_read e ec req s w =
     (case ec of
        EndOfStream _ \<Rightarrow> Ok (do_eof s, w)
      | Success \<Rightarrow>
          rbind (handle_request e req w) (\<lambda>w'.
            Ok (after_request (drop (length (sent w)) (sent w')) s, w'))
      | _ \<Rightarrow> Ok (log_fail ec ''read'' s, w))"

definition on_write :: "bool \<Rightarrow> error_code \<Rightarrow> session \<Rightarrow> session res" where
  "on_write close ec s =
     (if ec \<noteq> Success then Ok (log_fail ec ''write'' s)
      else if close then Ok (do_eof s)
      else rbind (queue_on_write s) (\<lambda>(was_full, s1). Ok (if was_full then do_read s1 else s1)))"

text \<open>The bytes of the buffer that the handshake used are consumed.\<close>

definition on_handshake :: "error_code \<Rightarrow> nat \<Rightarrow> session \<Rightarrow> session" where
  "on_handshake ec bytes_used s =
     (if ec \<noteq> Success then log_fail ec ''handshake'' s
      else do_read (s\<lparr>inbuf := drop bytes_used (inbuf s)\<rparr>))"

definition on_shutdown :: "error_code \<Rightarrow> session \<Rightarrow> session" where
  "on_shutdown ec s = (if ec \<noteq> Success then log_fail ec ''shutdown'' s else s)"

text \<open>
  The constructors: of the base class with the buffer it is given, and of the two classes. The
  ghost fields start empty.
\<close>

definition http_session :: "stream_kind \<Rightarrow> string \<Rightarrow> session" where
  "http_session k buf =
     \<lparr>kind = k, items = new_queue, inbuf = buf, body_limit = None, handshakes = 0,
      reads = 0, writes = [], shutdowns = 0, send_closed = False, requests = [], started = [],
      finished = [], read_end = False, write_end = False, errs = [], clock = 0, expiry = None,
      handshake_due = None, read_due = None, write_due = None, shutdown_due = None\<rparr>"

definition plain_http_session :: "string \<Rightarrow> session" where
  "plain_http_session buf = http_session Plain buf"

definition ssl_http_session :: "string \<Rightarrow> session" where
  "ssl_http_session buf = http_session Ssl buf"

text \<open>\<^verbatim>\<open>run\<close> of the two classes.\<close>

definition plain_run :: "session \<Rightarrow> session" where
  "plain_run s = do_read s"

definition ssl_run :: "session \<Rightarrow> session" where
  "ssl_run s =
     (let s1 = expires_after (seconds 30) s
      in s1\<lparr>handshakes := handshakes s1 + 1, handshake_due := time_limit s1\<rparr>)"

text \<open>A session as the detector launches it.\<close>

definition new_session :: "stream_kind \<Rightarrow> string \<Rightarrow> session" where
  "new_session k buf =
     (case k of Plain \<Rightarrow> plain_run (plain_http_session buf) | Ssl \<Rightarrow> ssl_run (ssl_http_session buf))"

lemmas run_defs = new_session_def plain_run_def ssl_run_def plain_http_session_def ssl_http_session_def
  http_session_def new_queue_def do_read_def Let_def expires_after_def

section \<open>Steps\<close>

text \<open>
  A move of a session completes one operation in flight with some error code and runs its
  handler; a step is a move, a change of the world by others, or time that passes, though not beyond
  the time limit of an operation in flight. \<open>need_eof\<close> is Beast's test on a message.
\<close>

definition note_read :: "error_code \<Rightarrow> request \<Rightarrow> session \<Rightarrow> session" where
  "note_read ec req s =
     (if ec = Success then s\<lparr>requests := requests s @ [req]\<rparr> else s\<lparr>read_end := True\<rparr>)"

definition note_write :: "error_code \<Rightarrow> bool \<Rightarrow> response \<Rightarrow> session \<Rightarrow> session" where
  "note_write ec close m s =
     s\<lparr>finished := finished s @ (if ec = Success then [m] else []),
       write_end := write_end s \<or> ec \<noteq> Success \<or> close\<rparr>"

definition within :: "nat option \<Rightarrow> nat \<Rightarrow> bool" where
  "within limit t \<longleftrightarrow> (case limit of None \<Rightarrow> True | Some d \<Rightarrow> t \<le> d)"

text \<open>The limit of the parser, as its documentation describes it: a longer body is an error of the read.\<close>

definition admits :: "session \<Rightarrow> error_code \<Rightarrow> request \<Rightarrow> bool" where
  "admits s ec req \<longleftrightarrow> ec \<noteq> Success \<or> within (body_limit s) (length (req_body req))"

inductive session_move ::
    "('d, 't) env \<Rightarrow> (response \<Rightarrow> bool) \<Rightarrow> session \<times> 'd world \<Rightarrow> session \<times> 'd world \<Rightarrow> bool"
  for e :: "('d, 't) env" and need_eof :: "response \<Rightarrow> bool"
where
  ReadDone: "reads s = Suc n \<Longrightarrow> on_read e ec req (s\<lparr>reads := n, inbuf := buf\<rparr>) w = Ok (s', w') \<Longrightarrow>
     admits s ec req \<Longrightarrow> session_move e need_eof (s, w) (note_read ec req s', w')"
| WriteDone: "writes s = xs @ m # ys \<Longrightarrow> on_write (need_eof m) ec (s\<lparr>writes := xs @ ys\<rparr>) = Ok s' \<Longrightarrow>
     session_move e need_eof (s, w) (note_write ec (need_eof m) m s', w)"
| HandshakeDone: "handshakes s = Suc n \<Longrightarrow>
     session_move e need_eof (s, w)
       (let s' = on_handshake ec used (s\<lparr>handshakes := n\<rparr>) in if ec = Success then s' else s'\<lparr>read_end := True\<rparr>, w)"
| ShutdownDone: "shutdowns s = Suc n \<Longrightarrow>
     session_move e need_eof (s, w) (on_shutdown ec (s\<lparr>shutdowns := n\<rparr>), w)"

definition in_time :: "session \<Rightarrow> nat \<Rightarrow> bool" where
  "in_time s t \<longleftrightarrow>
     (handshakes s = 0 \<or> within (handshake_due s) t) \<and> (reads s = 0 \<or> within (read_due s) t) \<and>
     (writes s = [] \<or> within (write_due s) t) \<and> (shutdowns s = 0 \<or> within (shutdown_due s) t)"

inductive session_step ::
    "('d, 't) env \<Rightarrow> (response \<Rightarrow> bool) \<Rightarrow> session \<times> 'd world \<Rightarrow> session \<times> 'd world \<Rightarrow> bool"
  for e :: "('d, 't) env" and need_eof :: "response \<Rightarrow> bool"
where
  Move: "session_move e need_eof c c' \<Longrightarrow> session_step e need_eof c c'"
| World: "session_step e need_eof (s, w) (s, w')"
| Elapsed: "clock s \<le> t \<Longrightarrow> in_time s t \<Longrightarrow> session_step e need_eof (s, w) (s\<lparr>clock := t\<rparr>, w)"

inductive reachable ::
    "('d, 't) env \<Rightarrow> (response \<Rightarrow> bool) \<Rightarrow> session \<times> 'd world \<Rightarrow> bool"
  for e :: "('d, 't) env" and need_eof :: "response \<Rightarrow> bool"
where
  Launched: "reachable e need_eof (new_session k buf, w)"
| Stepped: "reachable e need_eof c \<Longrightarrow> session_step e need_eof c c' \<Longrightarrow> reachable e need_eof c'"

inductive_cases session_moveE: "session_move e need_eof (s, w) (s', w')"
inductive_cases session_stepE: "session_step e need_eof c c'"

section \<open>The interface of the queue\<close>

text \<open>
  What a session relies on: the waiting messages, those handed to the stream so far, and two
  operations, of which \<open>pop\<close> also says whether the queue was full.
\<close>

locale send_queue =
  fixes waiting :: "'q \<Rightarrow> 'm list"
    and begun :: "'q \<Rightarrow> 'm list"
    and push :: "'m \<Rightarrow> 'q \<Rightarrow> 'q"
    and pop :: "'q \<Rightarrow> (bool \<times> 'q) res"
    and limit :: nat
  assumes push_waiting: "waiting (push m q) = waiting q @ [m]"
    and push_begun: "begun (push m q) = begun q @ (if waiting q = [] then [m] else [])"
    and pop_spec: "waiting q \<noteq> [] \<Longrightarrow>
      \<exists>q'. pop q = Ok (limit \<le> length (waiting q), q') \<and> waiting q' = tl (waiting q) \<and>
           begun q' = begun q @ take 1 (tl (waiting q))"
begin

text \<open>Nothing is lost or reordered: begun messages and the waiting ones behind the first.\<close>

lemma push_history:
  "begun (push m q) @ drop 1 (waiting (push m q)) = begun q @ drop 1 (waiting q) @ [m]"
  by (cases "waiting q") (simp_all add: push_waiting push_begun)

lemma pop_history:
  "waiting q \<noteq> [] \<Longrightarrow> pop q = Ok (b, q') \<Longrightarrow>
     begun q' @ drop 1 (waiting q') = begun q @ drop 1 (waiting q)"
  using pop_spec [of q] by (cases "tl (waiting q)") (auto simp: drop_Suc)

lemma pushes_history:
  "begun (fold push ms q) @ drop 1 (waiting (fold push ms q)) = begun q @ drop 1 (waiting q) @ ms"
proof (induction ms arbitrary: q)
  case (Cons m ms)
  then show ?case using push_history [of m q] by simp
qed simp

lemma pushes_waiting: "waiting (fold push ms q) = waiting q @ ms"
  by (induction ms arbitrary: q) (simp_all add: push_waiting)

end

lemma queue_push_simps [simp]:
  "kind (queue_push m s) = kind s" "reads (queue_push m s) = reads s"
  "handshakes (queue_push m s) = handshakes s" "shutdowns (queue_push m s) = shutdowns s"
  "requests (queue_push m s) = requests s" "finished (queue_push m s) = finished s"
  "read_end (queue_push m s) = read_end s" "write_end (queue_push m s) = write_end s"
  "body_limit (queue_push m s) = body_limit s"
  "items (queue_push m s) = items s @ [m]"
  "writes (queue_push m s) = writes s @ (if items s = [] then [m] else [])"
  "started (queue_push m s) = started s @ (if items s = [] then [m] else [])"
  by (simp_all add: queue_push_def start_write_def Let_def)

lemma queue_on_write_eq:
  assumes "items s \<noteq> []"
  shows "\<exists>s'. queue_on_write s = Ok (queue_limit \<le> length (items s), s') \<and> items s' = tl (items s) \<and>
           started s' = started s @ take 1 (tl (items s)) \<and> writes s' = writes s @ take 1 (tl (items s)) \<and>
           reads s' = reads s \<and> handshakes s' = handshakes s \<and> requests s' = requests s \<and>
           finished s' = finished s \<and> read_end s' = read_end s \<and> write_end s' = write_end s \<and>
           shutdowns s' = shutdowns s \<and> body_limit s' = body_limit s"
  using assms
  by (cases "tl (items s)") (simp_all add: queue_on_write_def is_full_def start_write_def Let_def)

interpretation http_queue: send_queue items started queue_push queue_on_write queue_limit
  by unfold_locales (use queue_on_write_eq in \<open>auto\<close>)

lemma fold_push_simps [simp]:
  "reads (fold queue_push ms s) = reads s" "handshakes (fold queue_push ms s) = handshakes s"
  "requests (fold queue_push ms s) = requests s" "finished (fold queue_push ms s) = finished s"
  "read_end (fold queue_push ms s) = read_end s" "write_end (fold queue_push ms s) = write_end s"
  "body_limit (fold queue_push ms s) = body_limit s"
  by (induction ms arbitrary: s) simp_all

lemma do_read_simps [simp]:
  "items (do_read s) = items s" "reads (do_read s) = Suc (reads s)" "writes (do_read s) = writes s"
  "handshakes (do_read s) = handshakes s" "requests (do_read s) = requests s"
  "started (do_read s) = started s" "finished (do_read s) = finished s"
  "read_end (do_read s) = read_end s" "write_end (do_read s) = write_end s"
  "body_limit (do_read s) = Some 10000"
  by (simp_all add: do_read_def Let_def expires_after_def)

lemma after_request_simps [simp]:
  "items (after_request [r] s) = items s @ [r]"
  "writes (after_request [r] s) = writes s @ (if items s = [] then [r] else [])"
  "started (after_request [r] s) = started s @ (if items s = [] then [r] else [])"
  "handshakes (after_request [r] s) = handshakes s" "requests (after_request [r] s) = requests s"
  "finished (after_request [r] s) = finished s" "read_end (after_request [r] s) = read_end s"
  "write_end (after_request [r] s) = write_end s"
  "reads (after_request [r] s) = (if length (items s) + 1 < queue_limit then Suc (reads s) else reads s)"
  "body_limit (after_request [r] s) = (if length (items s) + 1 < queue_limit then Some 10000 else body_limit s)"
  by (simp_all add: after_request_def is_full_def Let_def)

lemma do_eof_simps [simp]:
  "items (do_eof s) = items s" "reads (do_eof s) = reads s" "writes (do_eof s) = writes s"
  "handshakes (do_eof s) = handshakes s" "requests (do_eof s) = requests s"
  "started (do_eof s) = started s" "finished (do_eof s) = finished s"
  "read_end (do_eof s) = read_end s" "write_end (do_eof s) = write_end s"
  "body_limit (do_eof s) = body_limit s"
  by (simp_all add: do_eof_defs split: stream_kind.split)

lemma log_fail_simps [simp]:
  "items (log_fail ec f s) = items s" "reads (log_fail ec f s) = reads s"
  "writes (log_fail ec f s) = writes s" "handshakes (log_fail ec f s) = handshakes s"
  "requests (log_fail ec f s) = requests s" "started (log_fail ec f s) = started s"
  "finished (log_fail ec f s) = finished s" "read_end (log_fail ec f s) = read_end s"
  "write_end (log_fail ec f s) = write_end s" "body_limit (log_fail ec f s) = body_limit s"
  by (simp_all add: log_fail_def)

section \<open>The invariant of a session\<close>

definition flow_ok :: "session \<Rightarrow> bool" where
  "flow_ok s \<longleftrightarrow>
     handshakes s + reads s \<le> 1 \<and> length (items s) \<le> queue_limit \<and>
     (0 < handshakes s \<longrightarrow> items s = []) \<and>
     (0 < reads s \<longrightarrow> length (items s) < queue_limit \<and> body_limit s = Some 10000) \<and>
     (read_end s \<longrightarrow> handshakes s = 0 \<and> reads s = 0 \<and> length (items s) < queue_limit) \<and>
     (\<not> read_end s \<longrightarrow> handshakes s + reads s = 1 \<or> length (items s) = queue_limit)"

definition writes_ok :: "session \<Rightarrow> bool" where
  "writes_ok s \<longleftrightarrow>
     (if write_end s then writes s = [] \<and> items s \<noteq> [] \<and> (\<exists>l. started s = finished s @ l \<and> length l \<le> 1)
      else writes s = take 1 (items s) \<and> started s = finished s @ writes s)"

definition answered :: "string \<Rightarrow> session \<Rightarrow> bool" where
  "answered ver s \<longleftrightarrow> list_all2 (answers ver) (requests s) (started s @ drop 1 (items s))"

definition session_inv :: "string \<Rightarrow> session \<Rightarrow> bool" where
  "session_inv ver s \<longleftrightarrow> flow_ok s \<and> writes_ok s \<and> answered ver s"

lemma launched_inv: "session_inv ver (new_session k buf)"
  by (cases k) (simp_all add: session_inv_def flow_ok_def writes_ok_def answered_def run_defs do_read_def queue_limit_def)

text \<open>One lemma per handler.\<close>

lemma on_read_cases:
  assumes "env_ok rows e" and "on_read e ec req s w = Ok (s', w')"
  shows "(ec = Success \<and> (\<exists>r. answers (beast_version e) req r \<and> s' = after_request [r] s)) \<or>
         (ec \<noteq> Success \<and> (s' = do_eof s \<or> s' = log_fail ec ''read'' s))"
proof (cases "ec = Success")
  case True
  with assms(2) obtain w1 where w1: "handle_request e req w = Ok w1"
    and s': "s' = after_request (drop (length (sent w)) (sent w1)) s"
    by (auto simp: on_read_def res_simps)
  obtain r where "sent w1 = sent w @ [r]" "answers (beast_version e) req r"
    using handle_request_effect [OF assms(1) w1] by (auto simp: replied_def)
  with s' True show ?thesis by auto
next
  case False
  with assms(2) show ?thesis by (cases ec) (auto simp: on_read_def)
qed

lemma request_handled_inv:
  assumes inv: "session_inv ver s" and n: "reads s = Suc n" and r: "answers ver req r"
  shows "session_inv ver (note_read Success req (after_request [r] (s\<lparr>reads := n, inbuf := buf\<rparr>)))"
proof -
  let ?s = "s\<lparr>reads := n, inbuf := buf\<rparr>"
  let ?s' = "after_request [r] ?s"
  have n0: "n = 0" "handshakes s = 0" "length (items s) < queue_limit" "\<not> read_end s"
    using inv n by (auto simp: session_inv_def flow_ok_def)
  have "flow_ok (note_read Success req ?s')"
    using n0 by (auto simp: flow_ok_def note_read_def)
  moreover have "writes_ok (note_read Success req ?s')"
    using inv
    by (cases "items s") (auto simp: session_inv_def writes_ok_def note_read_def split: if_splits)
  moreover have "started ?s' @ drop 1 (items ?s') = started s @ drop 1 (items s) @ [r]"
    using http_queue.push_history [of r ?s] by simp
  then have "answered ver (note_read Success req ?s')"
    using inv r
    by (simp add: session_inv_def answered_def note_read_def list_all2_appendI flip: append_assoc)
  ultimately show ?thesis by (simp add: session_inv_def)
qed

lemma read_step_inv:
  assumes env: "env_ok rows e" and inv: "session_inv (beast_version e) s" and n: "reads s = Suc n"
    and ok: "on_read e ec req (s\<lparr>reads := n, inbuf := buf\<rparr>) w = Ok (s', w')"
  shows "session_inv (beast_version e) (note_read ec req s')"
  using on_read_cases [OF env ok]
proof (elim disjE conjE exE)
  fix r
  assume "ec = Success" "answers (beast_version e) req r" "s' = after_request [r] (s\<lparr>reads := n, inbuf := buf\<rparr>)"
  then show ?thesis using request_handled_inv [OF inv n] by simp
next
  assume ec: "ec \<noteq> Success" and s': "s' = do_eof (s\<lparr>reads := n, inbuf := buf\<rparr>)"
  then show ?thesis
    using inv n by (auto simp: session_inv_def flow_ok_def writes_ok_def answered_def note_read_def)
next
  assume ec: "ec \<noteq> Success" and s': "s' = log_fail ec ''read'' (s\<lparr>reads := n, inbuf := buf\<rparr>)"
  then show ?thesis
    using inv n by (auto simp: session_inv_def flow_ok_def writes_ok_def answered_def note_read_def)
qed

lemma write_in_flight:
  assumes "session_inv ver s" and "writes s = xs @ m # ys"
  shows "\<not> write_end s" "xs = []" "ys = []" "items s = m # tl (items s)" "started s = finished s @ [m]"
proof -
  show "\<not> write_end s"
    using assms by (auto simp: session_inv_def writes_ok_def)
  then have "xs @ m # ys = take 1 (items s)" "started s = finished s @ writes s"
    using assms by (auto simp: session_inv_def writes_ok_def)
  then show "xs = []" "ys = []" "items s = m # tl (items s)" "started s = finished s @ [m]"
    using assms(2) by (cases "items s"; cases xs; auto)+
qed

text \<open>A write that failed or closes the connection, and one after which the queue goes on.\<close>

lemma write_ends_inv:
  assumes inv: "session_inv ver s" and m: "writes s = xs @ m # ys" and ends: "ec \<noteq> Success \<or> close"
    and ok: "on_write close ec (s\<lparr>writes := []\<rparr>) = Ok s'"
  shows "session_inv ver (note_write ec close m s')"
proof -
  let ?s = "s\<lparr>writes := []\<rparr>"
  note fl = write_in_flight [OF inv m]
  have ne: "items s \<noteq> []" using fl(4) by (metis list.distinct(1))
  have "s' = log_fail ec ''write'' ?s \<or> s' = do_eof ?s"
    using ok ends by (auto simp: on_write_def split: if_splits)
  then have same: "items s' = items s" "reads s' = reads s" "handshakes s' = handshakes s" "writes s' = []"
    "requests s' = requests s" "started s' = started s" "finished s' = finished s"
    "read_end s' = read_end s" "body_limit s' = body_limit s"
    by auto
  have "flow_ok (note_write ec close m s')"
    using inv same by (simp add: session_inv_def flow_ok_def note_write_def)
  moreover have "writes_ok (note_write ec close m s')"
    using ends same fl(5) ne by (auto simp: writes_ok_def note_write_def)
  moreover have "answered ver (note_write ec close m s')"
    using inv same by (simp add: session_inv_def answered_def note_write_def)
  ultimately show ?thesis by (simp add: session_inv_def)
qed

lemma write_goes_on_inv:
  assumes inv: "session_inv ver s" and m: "writes s = xs @ m # ys"
    and ok: "on_write False Success (s\<lparr>writes := []\<rparr>) = Ok s'"
  shows "session_inv ver (note_write Success False m s')"
proof -
  let ?s = "s\<lparr>writes := []\<rparr>"
  note fl = write_in_flight [OF inv m]
  have ne: "items s \<noteq> []" using fl(4) by (metis list.distinct(1))
  obtain s1 where q: "queue_on_write ?s = Ok (queue_limit \<le> length (items s), s1)"
    and s1: "items s1 = tl (items s)" "started s1 = started s @ take 1 (tl (items s))"
      "writes s1 = take 1 (tl (items s))" "reads s1 = reads s" "handshakes s1 = handshakes s"
      "requests s1 = requests s" "finished s1 = finished s" "read_end s1 = read_end s" "write_end s1 = write_end s"
      "body_limit s1 = body_limit s"
    using queue_on_write_eq [of ?s] ne by auto
  have s': "s' = (if queue_limit \<le> length (items s) then do_read s1 else s1)"
    using ok q by (simp add: on_write_def)
  have same: "items s' = tl (items s)" "started s' = started s @ take 1 (tl (items s))"
      "writes s' = take 1 (tl (items s))" "handshakes s' = handshakes s" "requests s' = requests s"
      "finished s' = finished s" "read_end s' = read_end s" "write_end s' = write_end s"
      "reads s' = (if queue_limit \<le> length (items s) then Suc (reads s) else reads s)"
      "body_limit s' = (if queue_limit \<le> length (items s) then Some 10000 else body_limit s)"
    using s1 by (simp_all add: s')
  have "length (tl (items s)) < length (items s)" using ne by simp
  then have "flow_ok (note_write Success False m s')"
    using inv same ne by (auto simp: session_inv_def flow_ok_def note_write_def queue_limit_def)
  moreover have "writes_ok (note_write Success False m s')"
    using same fl by (simp add: writes_ok_def note_write_def)
  moreover have "started s' @ drop 1 (items s') = started s @ drop 1 (items s)"
    using http_queue.pop_history [OF _ q] ne by (simp add: s')
  then have "answered ver s'"
    using inv same(5) by (simp only: session_inv_def answered_def)
  then have "answered ver (note_write Success False m s')"
    by (simp add: answered_def note_write_def)
  ultimately show ?thesis by (simp add: session_inv_def)
qed

lemma write_step_inv:
  assumes "session_inv ver s" and "writes s = xs @ m # ys"
    and "on_write close ec (s\<lparr>writes := xs @ ys\<rparr>) = Ok s'"
  shows "session_inv ver (note_write ec close m s')"
proof -
  have "on_write close ec (s\<lparr>writes := []\<rparr>) = Ok s'"
    using assms(3) write_in_flight(2,3) [OF assms(1,2)] by simp
  then show ?thesis
    using write_ends_inv [OF assms(1,2)] write_goes_on_inv [OF assms(1,2)] by (cases "ec = Success \<and> \<not> close") auto
qed

lemma handshake_step_inv:
  assumes "session_inv ver s" and "handshakes s = Suc n"
  shows "session_inv ver (let s' = on_handshake ec used (s\<lparr>handshakes := n\<rparr>) in
                          if ec = Success then s' else s'\<lparr>read_end := True\<rparr>)"
  using assms
  by (auto simp: session_inv_def flow_ok_def writes_ok_def answered_def on_handshake_def queue_limit_def Let_def)

lemma shutdown_step_inv: "session_inv ver s \<Longrightarrow> session_inv ver (on_shutdown ec (s\<lparr>shutdowns := n\<rparr>))"
  by (auto simp: session_inv_def flow_ok_def writes_ok_def answered_def on_shutdown_def)

lemma move_inv:
  assumes "env_ok rows e" and "session_move e need_eof c c'" and "session_inv (beast_version e) (fst c)"
  shows "session_inv (beast_version e) (fst c')"
  using assms(2,3)
proof cases
  case (ReadDone s n ec req buf w s' w')
  then show ?thesis using assms(3) read_step_inv [OF assms(1)] by simp
next
  case (WriteDone s xs m ys ec s' w)
  then show ?thesis using assms(3) write_step_inv by simp
next
  case (HandshakeDone s n ec used w)
  then show ?thesis using assms(3) handshake_step_inv by simp
next
  case (ShutdownDone s n ec w)
  then show ?thesis using assms(3) shutdown_step_inv by simp
qed

lemma clock_inv [simp]: "session_inv ver (s\<lparr>clock := t\<rparr>) = session_inv ver s"
  by (simp add: session_inv_def flow_ok_def writes_ok_def answered_def)

lemma admits_error: "ec \<noteq> Success \<Longrightarrow> admits s ec req"
  by (simp add: admits_def)

lemmas admits_errors [simp] = admits_error [of "EndOfStream m" for m, simplified] admits_error [of "OtherError m" for m, simplified]

lemma admits_read:
  "session_inv ver s \<Longrightarrow> 0 < reads s \<Longrightarrow> admits s Success req \<longleftrightarrow> length (req_body req) \<le> 10000"
  by (simp add: admits_def within_def session_inv_def flow_ok_def)

lemma step_inv:
  assumes "env_ok rows e" and "session_step e need_eof c c'" and "session_inv (beast_version e) (fst c)"
  shows "session_inv (beast_version e) (fst c')"
  using assms(2,3) by cases (use move_inv [OF assms(1)] in auto)

lemma reachable_inv:
  assumes "env_ok rows e" and "reachable e need_eof c"
  shows "session_inv (beast_version e) (fst c)"
  using assms(2) by induction (auto simp: launched_inv intro: step_inv [OF assms(1)])

text \<open>
  What a move does to the requests and their responses: nothing, or one request was handled and its
  response comes last.
\<close>

definition history :: "session \<Rightarrow> response list" where
  "history s = started s @ drop 1 (items s)"

lemma after_request_requests [simp]: "requests (after_request rs s) = requests s"
  by (simp add: after_request_def Let_def)

lemma after_request_history: "history (after_request [r] s) = history s @ [r]"
  by (cases "items s") (simp_all add: history_def)

lemma note_simps [simp]:
  "history (note_read ec req s) = history s" "history (note_write ec close m s) = history s"
  "requests (note_write ec close m s) = requests s"
  "requests (note_read ec req s) = requests s @ (if ec = Success then [req] else [])"
  by (simp_all add: history_def note_read_def note_write_def)

lemma write_history:
  assumes inv: "session_inv ver s" and m: "writes s = xs @ m # ys"
    and ok: "on_write close ec (s\<lparr>writes := xs @ ys\<rparr>) = Ok s'"
  shows "history s' = history s \<and> requests s' = requests s"
proof -
  have ne: "items s \<noteq> []" using write_in_flight(4) [OF inv m] by (metis list.distinct(1))
  obtain s1 where q: "queue_on_write (s\<lparr>writes := xs @ ys\<rparr>) = Ok (queue_limit \<le> length (items s), s1)"
    and s1: "items s1 = tl (items s)" "started s1 = started s @ take 1 (tl (items s))" "requests s1 = requests s"
    using queue_on_write_eq [of "s\<lparr>writes := xs @ ys\<rparr>"] ne by auto
  have "history s1 = history s"
    using http_queue.pop_history [OF _ q] ne by (simp add: history_def)
  then have "history (do_read s1) = history s"
    by (simp add: history_def)
  then show ?thesis
    using ok q s1 \<open>history s1 = history s\<close>
    by (auto simp: on_write_def history_def split: if_splits)
qed

lemma move_history:
  assumes "session_move e need_eof (s, w) (s', w')" and "session_inv ver s"
  shows "(requests s' = requests s \<and> history s' = history s \<and> w' = w) \<or>
         (\<exists>req. handle_request e req w = Ok w' \<and> requests s' = requests s @ [req] \<and>
            (\<forall>r. sent w' = sent w @ [r] \<longrightarrow> history s' = history s @ [r]))"
  using assms(1)
proof cases
  case (ReadDone n ec req buf s1)
  show ?thesis
  proof (cases "ec = Success")
    case True
    then have "handle_request e req w = Ok w'"
      and s1: "s1 = after_request (drop (length (sent w)) (sent w')) (s\<lparr>reads := n, inbuf := buf\<rparr>)"
      using ReadDone by (auto simp: on_read_def res_simps)
    moreover have "history s1 = history s @ [r]" if "sent w' = sent w @ [r]" for r
      using s1 that after_request_history [of r "s\<lparr>reads := n, inbuf := buf\<rparr>"] by (simp add: history_def)
    ultimately show ?thesis using ReadDone True by auto
  next
    case False
    then have "w' = w" "s1 = do_eof (s\<lparr>reads := n, inbuf := buf\<rparr>) \<or> s1 = log_fail ec ''read'' (s\<lparr>reads := n, inbuf := buf\<rparr>)"
      using ReadDone by (auto simp: on_read_def split: error_code.splits)
    then show ?thesis using ReadDone False by (auto simp: history_def note_read_def)
  qed
next
  case (WriteDone xs m ys ec s1)
  then show ?thesis using write_history [OF assms(2) WriteDone(3,4)] by simp
qed (auto simp: history_def on_handshake_def on_shutdown_def Let_def)

text \<open>Once a write has failed or has closed the connection, no other is started.\<close>

lemma no_move_writes_after_end:
  assumes "session_inv (beast_version e) (fst c)" and "env_ok rows e" and "session_move e need_eof c c'"
    and "write_end (fst c)"
  shows "write_end (fst c') \<and> started (fst c') = started (fst c)"
proof -
  have w: "writes (fst c) = []" "items (fst c) \<noteq> []"
    using assms(1,4) by (auto simp: session_inv_def writes_ok_def)
  show ?thesis
    using assms(3)
  proof cases
    case (ReadDone s n ec req buf w s' w')
    then show ?thesis
      using on_read_cases [OF assms(2) ReadDone(4)] w assms(4) by (auto simp: note_read_def)
  next
    case (WriteDone s xs m ys ec s' w)
    then show ?thesis using w by simp
  qed (use assms(4) in \<open>auto simp: on_handshake_def on_shutdown_def Let_def\<close>)
qed

lemma no_write_after_end:
  assumes "session_inv (beast_version e) (fst c)" and "env_ok rows e" and "session_step e need_eof c c'"
    and "write_end (fst c)"
  shows "write_end (fst c') \<and> started (fst c') = started (fst c)"
  using assms(3) by cases (use no_move_writes_after_end [OF assms(1,2) _ assms(4)] assms(4) in auto)

text \<open>The operations in flight; without a read, every move brings a session nearer to its end.\<close>

definition session_work :: "session \<Rightarrow> nat" where
  "session_work s = handshakes s + reads s + length (writes s) + shutdowns s"

definition work_left :: "session \<Rightarrow> nat" where
  "work_left s = (if write_end s then 0 else 2 * length (items s)) + shutdowns s"

lemma write_drains:
  assumes inv: "session_inv ver s" and ended: "read_end s" and m: "writes s = xs @ m # ys"
    and ok: "on_write close ec (s\<lparr>writes := xs @ ys\<rparr>) = Ok s'"
  shows "read_end s' \<and> work_left (note_write ec close m s') < work_left s"
proof -
  note fl = write_in_flight [OF inv m]
  have ne: "0 < length (items s)" using fl(4) by (metis length_greater_0_conv list.distinct(1))
  have short: "length (items s) < queue_limit" using inv ended by (simp add: session_inv_def flow_ok_def)
  show ?thesis
  proof (cases "ec = Success \<and> \<not> close")
    case True
    then show ?thesis
      using ok queue_on_write_eq [of "s\<lparr>writes := xs @ ys\<rparr>"] ne short ended fl(1)
      by (auto simp: on_write_def work_left_def note_write_def)
  next
    case False
    then have "s' = log_fail ec ''write'' (s\<lparr>writes := xs @ ys\<rparr>) \<or> s' = do_eof (s\<lparr>writes := xs @ ys\<rparr>)"
      using ok by (auto simp: on_write_def split: if_splits)
    then have "read_end s'" "shutdowns s' \<le> shutdowns s + 1"
      using ended by (auto simp: log_fail_def do_eof_defs split: stream_kind.split)
    moreover have "shutdowns s + 1 < 2 * length (items s) + shutdowns s" using ne by linarith
    ultimately show ?thesis using False fl(1) by (auto simp: work_left_def note_write_def)
  qed
qed

lemma move_drains:
  assumes "session_move e need_eof c c'" and "session_inv (beast_version e) (fst c)" and "read_end (fst c)"
  shows "read_end (fst c') \<and> work_left (fst c') < work_left (fst c)"
  using assms(1)
proof cases
  case (WriteDone s xs m ys ec s' w)
  then show ?thesis
    using write_drains [OF _ _ WriteDone(3,4)] assms(2,3) by (simp add: note_write_def)
next
  case (ShutdownDone s n ec w)
  then show ?thesis
    using assms(3) by (simp add: on_shutdown_def log_fail_def work_left_def)
qed (use assms(2,3) in \<open>simp_all add: session_inv_def flow_ok_def\<close>)

text \<open>What a move does to the world is the work of one request, if anything.\<close>

lemma move_world:
  assumes "session_move e need_eof c c'"
  shows "snd c' = snd c \<or> (\<exists>req. handle_request e req (snd c) = Ok (snd c') \<and> 0 < reads (fst c) \<and> admits (fst c) Success req)"
  using assms
proof cases
  case (ReadDone s n ec req buf w s' w')
  then show ?thesis
    by (cases ec) (auto simp: on_read_def res_simps Let_def)
qed simp_all

lemma on_write_returns:
  assumes "session_inv ver s" and "writes s = xs @ m # ys"
  shows "\<exists>s'. on_write close ec (s\<lparr>writes := xs @ ys\<rparr>) = Ok s'"
proof -
  have "items s \<noteq> []" using write_in_flight(4) [OF assms] by (metis list.distinct(1))
  then show ?thesis
    using queue_on_write_eq [of "s\<lparr>writes := xs @ ys\<rparr>"] by (auto simp: on_write_def)
qed

section \<open>A concrete session\<close>

text \<open>A session that has read one request, whose response is being written.\<close>

lemma demo_illegal:
  "handle_request demo_env (demo_get ''x'') demo_world =
     Ok (send (bad_request (beast_version demo_env) (demo_get ''x'') ''Illegal request-target'') demo_world)"
  by (simp add: handle_request_eq illegal_target_def demo_get_def str_at_def)

lemma demo_move:
  "\<exists>s w m. session_move demo_env need_eof (new_session Plain buf, demo_world) (s, w) \<and>
           requests s = [demo_get ''x''] \<and> items s = [m] \<and> writes s = [m] \<and> started s = [m] \<and>
           reads s = 1 \<and> \<not> read_end s \<and> \<not> write_end s \<and> db w = db demo_world"
proof -
  let ?s0 = "new_session Plain buf"
  let ?m = "bad_request (beast_version demo_env) (demo_get ''x'') ''Illegal request-target''"
  let ?s1 = "after_request [?m] (?s0\<lparr>reads := 0, inbuf := []\<rparr>)"
  have s0: "reads ?s0 = Suc 0" "items ?s0 = []" "writes ?s0 = []" "started ?s0 = []" "requests ?s0 = []"
    "\<not> read_end ?s0" "\<not> write_end ?s0"
    by (simp_all add: run_defs)
  have "on_read demo_env Success (demo_get ''x'') (?s0\<lparr>reads := 0, inbuf := []\<rparr>) demo_world = Ok (?s1, send ?m demo_world)"
    by (simp add: on_read_def demo_illegal)
  then have "session_move demo_env need_eof (?s0, demo_world)
      (note_read Success (demo_get ''x'') ?s1, send ?m demo_world)"
    using s0(1) by (intro ReadDone) (simp_all add: admits_def within_def run_defs demo_get_def)
  then show ?thesis
    using s0
    by (intro exI [of _ "note_read Success (demo_get ''x'') ?s1"] exI [of _ "send ?m demo_world"] exI [of _ ?m])
       (simp add: note_read_def queue_limit_def)
qed

lemma demo_reachable:
  "\<exists>s w m. reachable demo_env need_eof (s, w) \<and> requests s = [demo_get ''x''] \<and> items s = [m] \<and>
           writes s = [m] \<and> started s = [m] \<and> reads s = 1 \<and> \<not> read_end s \<and> \<not> write_end s"
  using demo_move [of need_eof] reachable.Stepped [OF reachable.Launched Move] by blast

lemma demo_write_failed:
  "\<exists>s w. reachable demo_env need_eof (s, w) \<and> write_end s \<and> started s \<noteq> []"
proof -
  obtain s w m where s: "reachable demo_env need_eof (s, w)" "writes s = [] @ m # []" "started s = [m]"
    using demo_reachable [of need_eof] by auto
  have "on_write (need_eof m) (OtherError ''x'') (s\<lparr>writes := [] @ []\<rparr>) =
      Ok (log_fail (OtherError ''x'') ''write'' (s\<lparr>writes := [] @ []\<rparr>))"
    by (simp add: on_write_def)
  with s(2) have "session_move demo_env need_eof (s, w)
      (note_write (OtherError ''x'') (need_eof m) m (log_fail (OtherError ''x'') ''write'' (s\<lparr>writes := [] @ []\<rparr>)), w)"
    by (rule WriteDone)
  from reachable.Stepped [OF s(1) Move [OF this]] s(3) show ?thesis
    by (intro exI conjI) (auto simp: note_write_def)
qed

lemma demo_read_ended:
  "\<exists>s w. reachable demo_env need_eof (s, w) \<and> read_end s \<and> items s \<noteq> []"
proof -
  obtain s w m where s: "reachable demo_env need_eof (s, w)" "items s = [m]" "reads s = Suc 0"
    using demo_reachable [of need_eof] by auto
  have "on_read demo_env (EndOfStream ''x'') req (s\<lparr>reads := 0, inbuf := []\<rparr>) w =
      Ok (do_eof (s\<lparr>reads := 0, inbuf := []\<rparr>), w)" for req
    by (simp add: on_read_def)
  from reachable.Stepped [OF s(1) Move [OF ReadDone [OF s(3) this admits_errors(1)]]] s(2) show ?thesis
    by (intro exI conjI) (auto simp: note_read_def)
qed

text \<open>
  When the client has shut down its side, a plain session shuts down the other at once, with the
  responses that wait.
\<close>

lemma eof_closes_at_once:
  assumes "kind s = Plain" and "reads s = Suc n"
  shows "\<exists>s'. session_move e need_eof (s, w) (s', w) \<and> send_closed s' \<and> items s' = items s \<and> writes s' = writes s"
proof -
  have "on_read e (EndOfStream m) req (s\<lparr>reads := n, inbuf := []\<rparr>) w =
      Ok (do_eof (s\<lparr>reads := n, inbuf := []\<rparr>), w)" for m req
    by (simp add: on_read_def)
  from ReadDone [OF assms(2) this admits_errors(1)] assms(1)
  have "session_move e need_eof (s, w) (s\<lparr>reads := n, inbuf := [], send_closed := True, read_end := True\<rparr>, w)"
    by (simp add: note_read_def do_eof_defs)
  then show ?thesis
    by (intro exI [of _ "s\<lparr>reads := n, inbuf := [], send_closed := True, read_end := True\<rparr>"]) simp
qed

section \<open>Properties\<close>

text \<open>
  HTTP pipelining keeps requests and responses together: in every reachable state, for every
  order and every outcome of the asynchronous operations, the responses handed to the stream,
  followed by those that wait, answer the requests read so far one by one and in order.
\<close>

theorem responses_in_order:
  assumes "env_ok rows e" and "reachable e need_eof (s, w)"
  shows "list_all2 (answers (beast_version e)) (requests s) (started s @ drop 1 (items s))"
  using reachable_inv [OF assms] by (simp add: session_inv_def answered_def)

theorem responses_in_order_witness:
  "\<exists>s w. reachable demo_env (\<lambda>_. False) (s, w) \<and> requests s = [demo_get ''x''] \<and>
         list_all2 (answers (beast_version demo_env)) [demo_get ''x''] (started s @ drop 1 (items s))"
proof -
  obtain s w where s: "reachable demo_env (\<lambda>_. False) (s, w)" "requests s = [demo_get ''x'']"
    using demo_reachable by blast
  from responses_in_order [OF demo_env_ok s(1)] s show ?thesis by auto
qed

text \<open>
  At most one read and one write of a session are in flight and at most eight responses wait;
  no read is in flight when the queue is full; a write in flight is that of the first response of
  the queue; what was started is what was finished, in order, and at most one response more.
\<close>

theorem session_bounds:
  assumes "env_ok rows e" and "reachable e need_eof (s, w)"
  shows "handshakes s + reads s \<le> 1 \<and> length (items s) \<le> 8 \<and>
         (reads s = 1 \<longrightarrow> length (items s) < 8) \<and>
         (writes s = [] \<or> writes s = take 1 (items s)) \<and>
         (\<exists>l. started s = finished s @ l \<and> length l \<le> 1)"
  using reachable_inv [OF assms]
  by (auto simp: session_inv_def flow_ok_def writes_ok_def queue_limit_def split: if_splits)

theorem session_bounds_witness:
  "\<exists>s w. reachable demo_env (\<lambda>_. False) (s, w) \<and> reads s = 1 \<and> length (items s) < 8"
proof -
  obtain s w where s: "reachable demo_env (\<lambda>_. False) (s, w)" "reads s = 1"
    using demo_reachable by blast
  from session_bounds [OF demo_env_ok s(1)] s show ?thesis by blast
qed

text \<open>
  C25: A session does not stall: as long as no read and no write has ended it, either its
  handshake or a read is in flight, or the queue is full and the write of its first response is in
  flight, whose completion starts the next read.
\<close>

theorem session_never_stalls:
  assumes "env_ok rows e" and "reachable e need_eof (s, w)"
    and "\<not> read_end s" and "\<not> write_end s"
  shows "handshakes s + reads s = 1 \<or>
         (length (items s) = 8 \<and> writes s = [hd (items s)] \<and>
          (\<forall>m s'. on_write False Success (s\<lparr>writes := []\<rparr>) = Ok s' \<longrightarrow> reads s' = 1))"
proof (cases "handshakes s + reads s = 1")
  case False
  have inv: "flow_ok s" "writes_ok s"
    using reachable_inv [OF assms(1,2)] by (simp_all add: session_inv_def)
  with False assms(3) have full: "length (items s) = 8" "reads s = 0"
    by (auto simp: flow_ok_def queue_limit_def)
  then have ne: "items s \<noteq> []" by auto
  have "writes s = [hd (items s)]"
    using inv(2) assms(4) ne by (cases "items s") (simp_all add: writes_ok_def)
  moreover have "reads s' = 1" if "on_write False Success (s\<lparr>writes := []\<rparr>) = Ok s'" for s'
    using that queue_on_write_eq [of "s\<lparr>writes := []\<rparr>"] ne full by (auto simp: on_write_def queue_limit_def)
  ultimately show ?thesis using full by blast
qed simp

theorem session_never_stalls_witness:
  "\<exists>s w. reachable demo_env (\<lambda>_. False) (s, w) \<and> requests s = [demo_get ''x''] \<and> handshakes s + reads s = 1"
proof -
  obtain s w m where s: "reachable demo_env (\<lambda>_. False) (s, w)" "\<not> read_end s" "\<not> write_end s"
    "items s = [m]" "requests s = [demo_get ''x'']"
    using demo_reachable by blast
  from session_never_stalls [OF demo_env_ok s(1-3)] s show ?thesis by auto
qed

text \<open>
  After a write that failed or that closes the connection, no response is handed to the
  stream any more, whatever completes afterwards.
\<close>

theorem nothing_written_after_close:
  assumes "env_ok rows e" and "reachable e need_eof c" and "write_end (fst c)"
    and "(session_step e need_eof)\<^sup>*\<^sup>* c c'"
  shows "write_end (fst c') \<and> started (fst c') = started (fst c)"
proof -
  have "reachable e need_eof c' \<and> write_end (fst c') \<and> started (fst c') = started (fst c)"
    using assms(4)
  proof induction
    case base
    show ?case using assms(2,3) by simp
  next
    case (step y z)
    then show ?case
      using no_write_after_end [OF reachable_inv [OF assms(1)] assms(1) step.hyps(2)]
      by (auto intro: reachable.Stepped)
  qed
  then show ?thesis by simp
qed

theorem nothing_written_after_close_witness:
  "\<exists>s w w'. reachable demo_env (\<lambda>_. False) (s, w) \<and> write_end s \<and>
            (session_step demo_env (\<lambda>_. False))\<^sup>*\<^sup>* (s, w) (s, w') \<and> started (fst (s, w')) = started (fst (s, w))"
proof -
  obtain s w where s: "reachable demo_env (\<lambda>_. False) (s, w)" "write_end s"
    using demo_write_failed [of "\<lambda>_. False"] by blast
  have st: "(session_step demo_env (\<lambda>_. False))\<^sup>*\<^sup>* (s, w) (s, demo_world)"
    by (rule r_into_rtranclp) (rule session_step.World)
  from nothing_written_after_close [OF demo_env_ok s(1) _ st] s st show ?thesis by auto
qed

text \<open>
  C22: A session ends by itself: once its reading has ended, by the client or by an error, at most
  two more completions per waiting response and one per pending TLS shutdown can follow, whatever
  their outcomes, and then nothing is in flight.
\<close>

theorem session_drains:
  assumes "env_ok rows e" and "reachable e need_eof (s, w)" and "read_end s"
    and "(session_move e need_eof ^^ k) (s, w) c'"
  shows "k \<le> 2 * length (items s) + shutdowns s"
proof -
  let ?P = "\<lambda>c. session_inv (beast_version e) (fst c) \<and> read_end (fst c)"
  have "?P (s, w)" using reachable_inv [OF assms(1,2)] assms(3) by simp
  moreover have "?P d' \<and> work_left (fst d') < work_left (fst d)" if "?P d" "session_move e need_eof d d'" for d d'
    using move_drains [OF that(2)] move_inv [OF assms(1) that(2)] that(1) by blast
  ultimately have "k + work_left (fst c') \<le> work_left (fst (s, w))"
    using relpowp_measure [OF assms(4), of ?P "\<lambda>c. work_left (fst c)"] by blast
  then show ?thesis by (simp add: work_left_def split: if_splits)
qed

theorem session_drains_witness:
  "\<exists>s w. reachable demo_env (\<lambda>_. False) (s, w) \<and> items s \<noteq> [] \<and>
         \<not> (\<exists>c'. (session_move demo_env (\<lambda>_. False) ^^ (2 * length (items s) + shutdowns s + 1)) (s, w) c')"
proof -
  obtain s w where s: "reachable demo_env (\<lambda>_. False) (s, w)" "read_end s" "items s \<noteq> []"
    using demo_read_ended [of "\<lambda>_. False"] by blast
  have "\<not> (session_move demo_env (\<lambda>_. False) ^^ (2 * length (items s) + shutdowns s + 1)) (s, w) c'" for c'
    using session_drains [OF demo_env_ok s(1,2), of "2 * length (items s) + shutdowns s + 1" c'] by linarith
  with s show ?thesis by blast
qed

end
