(* ===== verification/Acceptor.thy ===== *)
theory Acceptor
  imports Session
begin

text \<open>
  The other two classes of \<^verbatim>\<open>include/session.hpp\<close>: the listener, which accepts connections
  and gives each to a detector, and the detector, which finds out whether the client speaks TLS and
  launches a session of that kind.
\<close>

section \<open>The detector\<close>

text \<open>
  Its members, then the operations in flight: \<^verbatim>\<open>run\<close> dispatches \<^verbatim>\<open>on_run\<close> to the
  strand of the stream, which sets a timeout and starts the detection. The stream and the bytes
  read from it move to the session; \<open>owns_stream\<close> says whether the detector still has the stream.
  Time is counted as in a session, with the time by which the detection completes.
\<close>

record detector =
  owns_stream :: bool
  det_buffer :: string
  det_expiry :: "nat option"
  dispatched :: nat
  detecting :: nat
  det_clock :: nat
  detect_due :: "nat option"
  det_errs :: "syslog_entry list"

definition detect_session :: detector where
  "detect_session =
     \<lparr>owns_stream = True, det_buffer = [], det_expiry = None, dispatched = 0, detecting = 0,
      det_clock = 0, detect_due = None, det_errs = []\<rparr>"

definition run_detector :: "detector \<Rightarrow> detector" where
  "run_detector d = d\<lparr>dispatched := dispatched d + 1\<rparr>"

definition on_run :: "detector \<Rightarrow> detector" where
  "on_run d =
     (let d1 = d\<lparr>det_expiry := Some (det_clock d + seconds 30)\<rparr>
      in d1\<lparr>detecting := detecting d1 + 1, detect_due := map_option (max (det_clock d1)) (det_expiry d1)\<rparr>)"

definition on_detect :: "error_code \<Rightarrow> bool \<Rightarrow> detector \<Rightarrow> detector \<times> session option" where
  "on_detect ec result d =
     (if ec \<noteq> Success then (d\<lparr>det_errs := det_errs d @ fail ec ''detect''\<rparr>, None)
      else
        let moved = d\<lparr>owns_stream := False, det_buffer := []\<rparr> in
        if result then (moved, Some (ssl_run (ssl_http_session (det_buffer d))))
        else (moved, Some (plain_run (plain_http_session (det_buffer d)))))"

section \<open>The listener\<close>

text \<open>
  The listener: how far its constructor came, the accepts in flight, the detectors launched so far. The
  constructor takes the error codes of its four calls.
\<close>

datatype acceptor_state = NotOpen | IsOpen | ReuseSet | IsBound | IsListening

record listener =
  acceptor :: acceptor_state
  accepts :: nat
  launched :: "detector list"
  lis_errs :: "syslog_entry list"

definition listener_fail :: "error_code \<Rightarrow> string \<Rightarrow> listener \<Rightarrow> listener" where
  "listener_fail ec what l = l\<lparr>lis_errs := lis_errs l @ fail ec what\<rparr>"

definition new_listener :: "error_code \<Rightarrow> error_code \<Rightarrow> error_code \<Rightarrow> error_code \<Rightarrow> listener" where
  "new_listener ec_open ec_option ec_bind ec_listen =
     (let l = \<lparr>acceptor = NotOpen, accepts = 0, launched = [], lis_errs = []\<rparr> in
      if ec_open \<noteq> Success then listener_fail ec_open ''open'' l
      else let l = l\<lparr>acceptor := IsOpen\<rparr> in
      if ec_option \<noteq> Success then listener_fail ec_option ''set_option'' l
      else let l = l\<lparr>acceptor := ReuseSet\<rparr> in
      if ec_bind \<noteq> Success then listener_fail ec_bind ''bind'' l
      else let l = l\<lparr>acceptor := IsBound\<rparr> in
      if ec_listen \<noteq> Success then listener_fail ec_listen ''listen'' l
      else l\<lparr>acceptor := IsListening\<rparr>)"

definition do_accept :: "listener \<Rightarrow> listener" where
  "do_accept l = l\<lparr>accepts := accepts l + 1\<rparr>"

definition run_listener :: "listener \<Rightarrow> listener" where
  "run_listener l = do_accept l"

definition on_accept :: "error_code \<Rightarrow> listener \<Rightarrow> listener" where
  "on_accept ec l =
     (let l1 = (if ec \<noteq> Success then listener_fail ec ''accept'' l
                else l\<lparr>launched := launched l @ [run_detector detect_session]\<rparr>)
      in do_accept l1)"

text \<open>What a detector hands to the session: the bytes it has read, in front of what follows.\<close>

lemma on_detect_session:
  "on_detect ec result d = (d', so) \<Longrightarrow>
     so = (if ec = Success then Some (new_session (if result then Ssl else Plain) (det_buffer d)) else None) \<and>
     owns_stream d' = (owns_stream d \<and> ec \<noteq> Success) \<and>
     dispatched d' = dispatched d \<and> detecting d' = detecting d"
  by (auto simp: on_detect_def new_session_def Let_def split: if_splits)

text \<open>How far the constructor came is an order on the states of the acceptor.\<close>

fun acceptor_rank :: "acceptor_state \<Rightarrow> nat" where
  "acceptor_rank NotOpen = 0"
| "acceptor_rank IsOpen = 1"
| "acceptor_rank ReuseSet = 2"
| "acceptor_rank IsBound = 3"
| "acceptor_rank IsListening = 4"

instantiation acceptor_state :: linorder
begin

definition less_eq_acceptor_state :: "acceptor_state \<Rightarrow> acceptor_state \<Rightarrow> bool" where
  "less_eq_acceptor_state a b \<longleftrightarrow> acceptor_rank a \<le> acceptor_rank b"

definition less_acceptor_state :: "acceptor_state \<Rightarrow> acceptor_state \<Rightarrow> bool" where
  "less_acceptor_state a b \<longleftrightarrow> acceptor_rank a < acceptor_rank b"

instance
proof
  fix a b :: acceptor_state
  show "a \<le> b \<Longrightarrow> b \<le> a \<Longrightarrow> a = b"
    by (cases a; cases b) (simp_all add: less_eq_acceptor_state_def)
qed (auto simp: less_eq_acceptor_state_def less_acceptor_state_def)

end

lemmas acceptor_order = less_eq_acceptor_state_def less_acceptor_state_def

text \<open>An accept in flight completes.\<close>

definition accept_done :: "error_code \<Rightarrow> listener \<Rightarrow> listener" where
  "accept_done ec l = on_accept ec (l\<lparr>accepts := accepts l - 1\<rparr>)"

lemma accept_done_simps [simp]:
  "acceptor (accept_done ec l) = acceptor l"
  "accepts (accept_done ec l) = accepts l - 1 + 1"
  "launched (accept_done ec l) = launched l @ (if ec = Success then [run_detector detect_session] else [])"
  "lis_errs (accept_done ec l) = lis_errs l @ (if ec = Success then [] else fail ec ''accept'')"
  by (simp_all add: accept_done_def on_accept_def do_accept_def listener_fail_def Let_def)

lemma run_listener_simps [simp]:
  "acceptor (run_listener l) = acceptor l" "accepts (run_listener l) = accepts l + 1"
  "launched (run_listener l) = launched l" "lis_errs (run_listener l) = lis_errs l"
  by (simp_all add: run_listener_def do_accept_def)

lemma new_listener_simps [simp]:
  "accepts (new_listener a b c d) = 0" "launched (new_listener a b c d) = []"
  by (simp_all add: new_listener_def listener_fail_def Let_def)

lemma accepts_done:
  "accepts l = 1 \<Longrightarrow> accepts (fold accept_done ecs l) = 1 \<and>
     launched (fold accept_done ecs l) =
       launched l @ replicate (length (filter (\<lambda>ec. ec = Success) ecs)) (run_detector detect_session)"
  by (induction ecs arbitrary: l) auto

section \<open>Properties\<close>

text \<open>
  The listener goes on accepting whatever happens: exactly one accept is in flight after any
  number of completions, and every connection accepted without error, and no other, gets a
  detector that is dispatched.
\<close>

theorem listener_keeps_accepting:
  "accepts (fold accept_done ecs (run_listener (new_listener a b c d))) = 1 \<and>
   launched (fold accept_done ecs (run_listener (new_listener a b c d))) =
     replicate (length (filter (\<lambda>ec. ec = Success) ecs)) (run_detector detect_session)"
  using accepts_done [of "run_listener (new_listener a b c d)" ecs] by simp

text \<open>
  The constructor of the listener stops at the first call that fails, and logs that one only:
  the acceptor listens exactly when all four calls succeeded.
\<close>

theorem new_listener_stages:
  "(IsOpen \<le> acceptor (new_listener a b c d) \<longleftrightarrow> a = Success) \<and>
   (ReuseSet \<le> acceptor (new_listener a b c d) \<longleftrightarrow> a = Success \<and> b = Success) \<and>
   (IsBound \<le> acceptor (new_listener a b c d) \<longleftrightarrow> a = Success \<and> b = Success \<and> c = Success) \<and>
   (IsListening \<le> acceptor (new_listener a b c d) \<longleftrightarrow>
      a = Success \<and> b = Success \<and> c = Success \<and> d = Success) \<and>
   length (lis_errs (new_listener a b c d)) \<le> 1"
  by (auto simp: new_listener_def listener_fail_def acceptor_order fail_def Let_def)

end
