(* ===== verification/Service.thy ===== *)
theory Service
  imports Shortener
begin

text \<open>
  The properties of the request handlers and of the shortener they make up, each with an instance
  on a concrete server.
\<close>

section \<open>Answering\<close>

text \<open>
  C19: A handler that returns has sent exactly one response per request, in the order of the
  requests, each with the version of its request and the server field. Every response but a redirect
  keeps or closes the connection as its request asks; a redirect carries a location and says nothing
  of the connection, whatever the request asked for.
\<close>

theorem requests_answered_in_order:
  assumes "store_inv rows e w" and "run_steps (handle_request e) reqs w = Ok w'"
  shows "\<exists>rs. sent w' = sent w @ rs \<and> list_all2 (answers (beast_version e)) reqs rs"
  using shortener.run_replies [OF assms] .

lemma demo_post_returns:
  "\<exists>w' t. handle_request demo_env demo_post demo_world = Ok w' \<and> is_token t \<and>
          stores (\<lambda>d. d) ''urls.db'' t ''http://a.b'' (db demo_world) (db w')"
proof -
  have "req_method demo_post = Post" "req_target demo_post = ''/post.html''"
    by (simp_all add: demo_post_def)
  moreover have "sqlite_available (sql demo_env) (\<lambda>d. d)" by simp
  moreover have "cstr ''http://a.b'' = ''http://a.b''"
    by (simp add: cstr_def NUL_def)
  ultimately show ?thesis
    using post_available [OF demo_env_ok, of demo_post "''http://a.b''" demo_world]
      demo_request_url demo_http by (simp add: demo_world_def) blast
qed

theorem requests_answered_in_order_witness:
  "\<exists>w' rs. run_steps (handle_request demo_env) [demo_post] demo_world = Ok w' \<and>
           sent w' = sent demo_world @ rs \<and> list_all2 (answers (beast_version demo_env)) [demo_post] rs"
proof -
  obtain w' where "run_steps (handle_request demo_env) [demo_post] demo_world = Ok w'"
    using demo_post_returns by auto
  with requests_answered_in_order [OF demo_store_inv this] show ?thesis by blast
qed

text \<open>
  C7: What a handler can do instead of returning, exactly. It throws in one case: a form posted to
  \<^verbatim>\<open>/post.html\<close> with more than a thousand ampersands, whose \<^verbatim>\<open>length_error\<close>
  nothing between \<open>parse_qsl\<close> and the event loop catches. Its behaviour is undefined in two: such
  a form within the limit that has an escape with a byte \<^verbatim>\<open>std::isdigit\<close> must not be given, and
  a GET or HEAD of a static file whose opening fails with another error than a missing file, when the
  target is printed beyond its end. Every other request, whatever SQLite, the file system and the
  template engine do, is handled to the end.
\<close>

theorem request_outcome:
  assumes "env_ok rows e"
  shows "(handle_request e req w = Exn x \<longleftrightarrow> x = LengthError \<and> req_target req = ''/post.html'' \<and>
            req_method req = Post \<and> req_field req ''Content-Type'' = form_type \<and>
            1000 < count_list (req_body req) CHR ''&'') \<and>
         (handle_request e req w = UB \<longleftrightarrow>
            (req_target req = ''/post.html'' \<and> req_method req = Post \<and>
             req_field req ''Content-Type'' = form_type \<and> count_list (req_body req) CHR ''&'' \<le> 1000 \<and>
             \<not> form_safe (req_body req)) \<or>
            (\<not> illegal_target (req_target req) \<and> find_route routes (req_target req) = Some HandleFile \<and>
             (req_method req = Get \<or> req_method req = Head) \<and>
             file_open e (cstr (path_cat (get_config_doc_root (state e)) (req_target req))) = OpenError))"
  using handle_request_outcome [OF assms, of req w x]
  by (simp add: flooded_def unsafe_form_def form_post_def unreadable_file_def conj_ac)

definition flood :: request where
  "flood = demo_post\<lparr>req_body := replicate 1001 CHR ''&''\<rparr>"

text \<open>A form whose one escape starts with the byte \<^verbatim>\<open>0x80\<close>.\<close>

definition bad_escape :: request where
  "bad_escape = demo_post\<lparr>req_body := [CHR ''%'', CHR 0x80, CHR ''0'']\<rparr>"

lemma count_replicate: "count_list (replicate n c) c = n"
  by (induction n) auto

lemma flood_flooded: "flooded flood"
  by (simp add: flooded_def form_post_def flood_def demo_post_def count_replicate)

lemma bad_escape_body: "\<not> form_safe [CHR ''%'', CHR 0x80, CHR ''0'']"
  by code_simp

lemma bad_escape_unsafe: "unsafe_form bad_escape"
  using bad_escape_body by (simp add: unsafe_form_def form_post_def bad_escape_def demo_post_def)

theorem request_outcome_witness:
  "handle_request demo_env flood demo_world = Exn LengthError \<and>
   handle_request demo_env bad_escape demo_world = UB \<and>
   handle_request (demo_env\<lparr>file_open := (\<lambda>_. OpenError)\<rparr>) (demo_get ''/robots.txt'') demo_world = UB"
proof -
  let ?e = "demo_env\<lparr>file_open := (\<lambda>_. OpenError)\<rparr>"
  have env: "env_ok (\<lambda>d. d) ?e" by (simp add: env_ok_def NUL_def)
  have route: "\<not> illegal_target ''/robots.txt'' \<and> find_route routes ''/robots.txt'' = Some HandleFile" by code_simp
  show ?thesis
    using request_outcome [OF demo_env_ok, of flood demo_world LengthError] flood_flooded
      request_outcome [OF demo_env_ok, of bad_escape demo_world LengthError] bad_escape_unsafe
      request_outcome [OF env, of "demo_get ''/robots.txt''" demo_world LengthError] route
    by (simp add: flooded_def unsafe_form_def form_post_def demo_get_def)
qed

section \<open>Resources\<close>

text \<open>
  C15: In every request that returns, the SQLite objects are used in the order SQLite asks for and
  none is left over: a statement is prepared only on an open connection, bound and stepped only
  while it lives, finalized before its connection is closed, and both are gone at the end, on every
  error path. Every file or template opened lies below the document root.
\<close>

theorem request_resources:
  assumes "env_ok rows e" and "handle_request e req w = Ok w'"
  shows "\<exists>ops. trace w' = trace w @ ops \<and> brackets (False, False) ops = Some (False, False) \<and>
               (\<forall>a\<in>set ops. reads_below (get_config_doc_root (state e)) a)"
  using handle_request_effect [OF assms] by (simp add: does_def)

theorem request_resources_witness:
  "\<exists>w' ops. handle_request demo_env demo_post demo_world = Ok w' \<and> trace w' = trace demo_world @ ops \<and>
            brackets (False, False) ops = Some (False, False) \<and> (\<forall>a\<in>set ops. reads_below ''.'' a)"
proof -
  obtain w' where w': "handle_request demo_env demo_post demo_world = Ok w'"
    using demo_post_returns by blast
  from request_resources [OF demo_env_ok this] w' show ?thesis by auto
qed

section \<open>The table of links\<close>

text \<open>
  The detailed handlers refine the abstract map of links: each request either leaves the map
  as it is or adds one link, under a token of the generator's form that was not used, to a URL of
  the web that was not stored; and only a POST of \<^verbatim>\<open>/post.html\<close> changes the database.
\<close>

theorem request_refines_links:
  assumes "env_ok rows e" and "handle_request e req w = Ok w'"
  shows "link_step (map_of (table rows e w)) (map_of (table rows e w')) \<and>
         (rows (db w') \<noteq> rows (db w) \<longrightarrow> req_method req = Post \<and> req_target req = ''/post.html'')"
  using request_link_step [OF assms] only_post_stores [OF assms] by blast

theorem request_refines_links_witness:
  "\<exists>w'. handle_request demo_env demo_post demo_world = Ok w' \<and>
        link_step Map.empty (map_of (db w' ''urls.db'')) \<and> db w' \<noteq> db demo_world"
proof -
  obtain w' t where w': "handle_request demo_env demo_post demo_world = Ok w'"
    and st: "stores (\<lambda>d. d) ''urls.db'' t ''http://a.b'' (db demo_world) (db w')"
    using demo_post_returns by blast
  have "db w' ''urls.db'' \<noteq> db demo_world ''urls.db''"
    using st by (simp add: stores_def)
  then have "db w' \<noteq> db demo_world" by auto
  with request_refines_links [OF demo_env_ok w'] w' show ?thesis by auto
qed

text \<open>
  The invariant of the table over any sequence of requests: no token and no URL twice, every
  token of the generator's form, every URL one of the web and free of NUL.
\<close>

theorem table_invariant:
  assumes "store_inv rows e w" and "run_steps (handle_request e) reqs w = Ok w'"
  shows "table_ok (table rows e w')"
  using shortener.run_inv [OF assms] by (simp add: store_inv_def)

theorem table_invariant_witness:
  "\<exists>w'. run_steps (handle_request demo_env) [demo_post] demo_world = Ok w' \<and> table_ok (db w' ''urls.db'') \<and>
        db w' ''urls.db'' \<noteq> []"
proof -
  obtain w' t where w': "handle_request demo_env demo_post demo_world = Ok w'"
    and st: "stores (\<lambda>d. d) ''urls.db'' t ''http://a.b'' (db demo_world) (db w')"
    using demo_post_returns by blast
  have "db w' ''urls.db'' \<noteq> []"
    using st by (simp add: stores_def)
  moreover have run: "run_steps (handle_request demo_env) [demo_post] demo_world = Ok w'"
    using w' by simp
  ultimately show ?thesis using table_invariant [OF demo_store_inv run] by auto
qed

text \<open>
  Links are permanent: whatever requests follow, a stored token keeps its URL.
\<close>

theorem links_permanent:
  assumes "store_inv rows e w" and "run_steps (handle_request e) reqs w = Ok w'"
    and "map_of (table rows e w) t = Some u"
  shows "map_of (table rows e w') t = Some u"
  by (rule shortener.run_keeps [OF assms])

definition full_world :: "string \<Rightarrow> (string \<Rightarrow> url_rows) world" where
  "full_world t = demo_world\<lparr>db := (\<lambda>_. [(t, ''http://a.b'')])\<rparr>"

lemma full_store_inv: "is_token t \<Longrightarrow> store_inv (\<lambda>d. d) demo_env (full_world t)"
  using demo_http by (simp add: store_inv_def full_world_def table_ok_def NUL_def)

theorem links_permanent_witness:
  "\<exists>t w'. is_token t \<and> run_steps (handle_request demo_env) [demo_get (CHR ''/'' # t)] (full_world t) = Ok w' \<and>
          map_of (db w' ''urls.db'') t = Some ''http://a.b''"
proof -
  obtain t where t: "is_token t" using demo_post_returns by blast
  have "sqlite_available (sql demo_env) (\<lambda>d. d)" by simp
  from lookup_available [OF demo_env_ok this _ _ _ t, of "full_world t" "demo_get (CHR ''/'' # t)"]
  obtain w' where w': "handle_request demo_env (demo_get (CHR ''/'' # t)) (full_world t) = Ok w'"
    using full_store_inv [OF t] by (auto simp: store_inv_def demo_get_def)
  then have "run_steps (handle_request demo_env) [demo_get (CHR ''/'' # t)] (full_world t) = Ok w'"
    by simp
  with links_permanent [OF full_store_inv [OF t] this, of t "''http://a.b''"] t show ?thesis
    by (auto simp: full_world_def)
qed

section \<open>Shortening and following\<close>

text \<open>The core of it: what a post of a new URL leaves behind, and a later lookup.\<close>

lemma posted_link:
  assumes inv: "store_inv rows e w" and av: "sqlite_available (sql e) rows"
    and post: "req_method p = Post" "req_target p = ''/post.html''"
    and url: "request_url e p = Ok (Inr url)" "http_url url"
    and token: "generate_random_filename (boost e) (rand e) (rd_count w) = Some (token, n)"
    and fresh: "token \<notin> fst ` set (table rows e w)" "cstr url \<notin> snd ` set (table rows e w)"
  shows "\<exists>w1. handle_request e p w = Ok w1 \<and> store_inv rows e w1 \<and> is_token token \<and>
           map_of (table rows e w1) token = Some (cstr url) \<and>
           sent w1 = sent w @ [page_response e p (path_cat (get_config_doc_root (state e)) ''/post.html'')
             (post_data e url token)]"
proof -
  have env: "env_ok rows e" using inv by (simp add: store_inv_def)
  obtain w1 where w1: "handle_request e p w = Ok w1" "is_token token"
    and st: "stores rows (db_file e) token (cstr url) (db w) (db w1)"
    and page: "sent w1 = sent w @ [page_response e p (path_cat (get_config_doc_root (state e)) ''/post.html'')
      (post_data e url token)]"
    using post_available [OF env av post url, of w] token fresh by auto
  have "table rows e w1 = table rows e w @ [(token, cstr url)]"
    using st by (simp add: stores_def)
  then have "map_of (table rows e w1) token = Some (cstr url)"
    by (simp only: map_of_snoc [OF fresh(1)] fun_upd_same)
  then show ?thesis using w1 page shortener.step_inv [OF inv w1(1)] by blast
qed

lemma stored_link_redirects:
  assumes inv: "store_inv rows e w1" and av: "sqlite_available (sql e) rows" and tok: "is_token token"
    and stored: "map_of (table rows e w1) token = Some u"
    and rest: "run_steps (handle_request e) between w1 = Ok w2"
    and get: "req_method g = Get" "req_target g = CHR ''/'' # token"
  shows "\<exists>w3. handle_request e g w2 = Ok w3 \<and> sent w3 = sent w2 @ [redirect_permanent (beast_version e) g u]"
proof -
  have env: "env_ok rows e" using inv by (simp add: store_inv_def)
  have kept: "map_of (table rows e w2) token = Some u"
    by (rule shortener.run_keeps [OF inv rest stored])
  have "table_ok (table rows e w2)"
    using shortener.run_inv [OF inv rest] by (simp add: store_inv_def)
  from lookup_available [OF env av this get tok] kept show ?thesis by auto
qed

text \<open>
  C1: The round trip of the service, across any requests in between: a URL that is posted and new
  (its token new too, and SQLite not failing) is stored, and from then on a GET of its token is
  answered with a permanent redirect to that URL, cut at its first NUL.
\<close>

theorem post_then_get:
  assumes inv: "store_inv rows e w" and av: "sqlite_available (sql e) rows"
    and post: "req_method p = Post" "req_target p = ''/post.html''"
    and url: "request_url e p = Ok (Inr url)" "http_url url"
    and token: "generate_random_filename (boost e) (rand e) (rd_count w) = Some (token, n)"
    and fresh: "token \<notin> fst ` set (table rows e w)" "cstr url \<notin> snd ` set (table rows e w)"
    and run: "run_steps (handle_request e) (p # between) w = Ok w2"
    and get: "req_method g = Get" "req_target g = CHR ''/'' # token"
  shows "\<exists>w3. handle_request e g w2 = Ok w3 \<and>
              sent w3 = sent w2 @ [redirect_permanent (beast_version e) g (cstr url)]"
proof -
  obtain w1 where w1: "handle_request e p w = Ok w1" "store_inv rows e w1" "is_token token"
    "map_of (table rows e w1) token = Some (cstr url)"
    using posted_link [OF inv av post url token fresh] by blast
  have "run_steps (handle_request e) between w1 = Ok w2" using run w1(1) by simp
  then show ?thesis by (rule stored_link_redirects [OF w1(2) av w1(3,4) _ get])
qed

theorem post_then_get_witness:
  "\<exists>token w2 w3. run_steps (handle_request demo_env) [demo_post] demo_world = Ok w2 \<and>
     handle_request demo_env (demo_get (CHR ''/'' # token)) w2 = Ok w3 \<and>
     sent w3 = sent w2 @ [redirect_permanent (beast_version demo_env) (demo_get (CHR ''/'' # token)) ''http://a.b'']"
proof -
  obtain token n where token:
    "generate_random_filename (boost demo_env) (rand demo_env) (rd_count demo_world) = Some (token, n)"
    using generate_random_filename_token [OF boost_ref_ok rng_low_ok, of "rd_count demo_world"] by auto
  obtain w2 where run: "run_steps (handle_request demo_env) [demo_post] demo_world = Ok w2"
    using demo_post_returns by auto
  have "\<exists>w3. handle_request demo_env (demo_get (CHR ''/'' # token)) w2 = Ok w3 \<and>
     sent w3 = sent w2 @ [redirect_permanent (beast_version demo_env) (demo_get (CHR ''/'' # token))
       (cstr ''http://a.b'')]"
    by (rule post_then_get [OF demo_store_inv _ _ _ demo_request_url demo_http token _ _ run])
       (simp_all add: demo_post_def demo_get_def)
  moreover have "cstr ''http://a.b'' = ''http://a.b''"
    by (simp add: cstr_def NUL_def)
  ultimately show ?thesis using run by auto
qed

text \<open>
  Following links, when SQLite does not fail: a GET of a token is answered with exactly one
  redirect, to the stored URL or, for a token that is not stored, to the fixed video; the table is
  as before.
\<close>

theorem get_token_redirects:
  assumes "store_inv rows e w" and "sqlite_available (sql e) rows"
    and "req_method req = Get" and "req_target req = CHR ''/'' # t" and "is_token t"
  shows "\<exists>w'. handle_request e req w = Ok w' \<and> rows (db w') = rows (db w) \<and>
           sent w' = sent w @ [redirect_permanent (beast_version e) req
             (case map_of (table rows e w) t of None \<Rightarrow> rickroll | Some u \<Rightarrow> u)]"
  using assms by (intro lookup_available) (auto simp: store_inv_def)

theorem get_token_redirects_witness:
  "\<exists>t w'. is_token t \<and> handle_request demo_env (demo_get (CHR ''/'' # t)) demo_world = Ok w' \<and>
          sent w' = [redirect_permanent (beast_version demo_env) (demo_get (CHR ''/'' # t)) rickroll]"
proof -
  obtain t where t: "is_token t" using demo_post_returns by blast
  have "\<exists>w'. handle_request demo_env (demo_get (CHR ''/'' # t)) demo_world = Ok w' \<and>
      db w' = db demo_world \<and>
      sent w' = sent demo_world @ [redirect_permanent (beast_version demo_env) (demo_get (CHR ''/'' # t))
        (case map_of (db demo_world ''urls.db'') t of None \<Rightarrow> rickroll | Some u \<Rightarrow> u)]"
    using get_token_redirects [OF demo_store_inv, of "demo_get (CHR ''/'' # t)" t] t
    by (simp add: demo_get_def)
  with t show ?thesis by (auto simp: demo_world_def)
qed

text \<open>
  No open redirect: whatever SQLite answers, a redirect leads to the fixed video or to a URL
  stored in the table under the requested token, and such a URL starts with \<^verbatim>\<open>http://\<close> or
  \<^verbatim>\<open>https://\<close>.
\<close>

theorem redirect_target:
  assumes "store_inv rows e w" and "handle_request e req w = Ok w'"
    and "sent w' = sent w @ [r]" and "res_status r = 301"
  shows "smap_get (res_fields r) ''Location'' = Some rickroll \<or>
         (\<exists>u. (cstr (drop 1 (req_target req)), u) \<in> set (table rows e w) \<and>
              smap_get (res_fields r) ''Location'' = Some u \<and> http_url u)"
proof -
  have env: "env_ok rows e" and tab: "table_ok (table rows e w)"
    using assms(1) by (simp_all add: store_inv_def)
  have "leads_to (table rows e w) (cstr (drop 1 (req_target req))) r"
    using handle_request_effect [OF env assms(2)] assms(3,4) by (auto simp: replied_def)
  then show ?thesis using table_ok_url [OF tab] by (auto simp: leads_to_def)
qed

theorem redirect_target_witness:
  "\<exists>t w' r. is_token t \<and> handle_request demo_env (demo_get (CHR ''/'' # t)) (full_world t) = Ok w' \<and>
     sent w' = sent (full_world t) @ [r] \<and>
     (smap_get (res_fields r) ''Location'' = Some rickroll \<or>
      (\<exists>u. smap_get (res_fields r) ''Location'' = Some u \<and> http_url u))"
proof -
  obtain t where t: "is_token t" using demo_post_returns by blast
  have "sqlite_available (sql demo_env) (\<lambda>d. d)" by simp
  from lookup_available [OF demo_env_ok this _ _ _ t, of "full_world t" "demo_get (CHR ''/'' # t)"]
  obtain w' r where w': "handle_request demo_env (demo_get (CHR ''/'' # t)) (full_world t) = Ok w'"
    and r: "sent w' = sent (full_world t) @ [r]" "res_status r = 301"
    using full_store_inv [OF t] by (auto simp: store_inv_def demo_get_def)
  from redirect_target [OF full_store_inv [OF t] w' r] t w' r show ?thesis by blast
qed

text \<open>
  Posting a URL again, when SQLite does not fail, is answered with a server error and changes
  nothing: no second token for a URL.
\<close>

theorem post_duplicate:
  assumes "env_ok rows e" and "sqlite_available (sql e) rows"
    and "req_method p = Post" and "req_target p = ''/post.html''"
    and "request_url e p = Ok (Inr url)" and "http_url url"
    and "cstr url \<in> snd ` set (table rows e w)"
  shows "\<exists>w' r. handle_request e p w = Ok w' \<and> rows (db w') = rows (db w) \<and>
                sent w' = sent w @ [r] \<and> res_status r = 500"
  using post_available [OF assms(1-6), of w] assms(7) by auto

theorem post_duplicate_witness:
  "\<exists>w' r. handle_request demo_env demo_post (full_world ''t'') = Ok w' \<and> db w' = db (full_world ''t'') \<and>
          sent w' = sent (full_world ''t'') @ [r] \<and> res_status r = 500"
proof -
  have "cstr ''http://a.b'' \<in> snd ` set (table (\<lambda>d. d) demo_env (full_world ''t''))"
    by (simp add: full_world_def cstr_def NUL_def)
  from post_duplicate [where rows = "\<lambda>d. d", OF demo_env_ok _ _ _ demo_request_url demo_http this]
  show ?thesis by (simp add: demo_post_def)
qed

end
