(* ===== verification/Phases.thy ===== *)
theory Phases
  imports Shortener
begin

text \<open>
  What the two phases of a handler do, for handlers that run on several threads: the first makes no
  step of a statement and leaves the database alone, the second makes the one step, from whatever the
  database has become.
\<close>

lemmas finish_defs [simp] = finish_get_url_def finish_store_def

section \<open>What the phases do\<close>

text \<open>What a pending statement is bound to: that is all the second phase depends on.\<close>

fun pending_ok :: "('d, 't) env \<Rightarrow> request \<Rightarrow> pending \<Rightarrow> bool" where
  "pending_ok e req (Lookup h binds) \<longleftrightarrow>
     req_method req = Get \<and> h = Some (db_file e) \<and> map_of binds 1 = Some (cstr (drop 1 (req_target req)))"
| "pending_ok e req (Insert h binds path data) \<longleftrightarrow>
     req_method req = Post \<and> h = Some (db_file e) \<and>
     (\<forall>t u. map_of binds 1 = Some t \<and> map_of binds 2 = Some u \<longrightarrow> is_token t \<and> http_url u \<and> NUL \<notin> set u)"

lemma prepared_handle:
  assumes "sqlite_ok (sql e) rows" and "make_sqlite3_handle e p w = (h, w1)"
    and "sqlite3_prepare (sql e) (db w1) h stmt = SQLITE_OK"
  shows "h = Some p"
  using make_handle_effect(4) [OF assms(2)] prepare_null [OF assms(1)] assms(3) by blast

lemma begin_get_url_pending:
  assumes sq: "sqlite_ok (sql e) rows" and ok: "begin_get_url e req w = Ok (Inr (p, w'))"
  shows "pending_ok e req p \<and> sent w' = sent w \<and> db w' = db w"
proof -
  obtain h w1 where h: "make_sqlite3_handle e (db_file e) w = (h, w1)" by fastforce
  note mk = make_handle_effect [OF h]
  obtain rc2 binds w3 where b: "bind_text e h select_sql 1 (drop 1 (req_target req)) []
      (io (SqlPrepare select_sql True) w1) = (rc2, binds, w3)"
    by (metis prod_cases3)
  note bt = bind_text_effect [OF b]
  have get: "req_method req = Get" and prep: "sqlite3_prepare (sql e) (db w1) h select_sql = SQLITE_OK"
    and bound: "rc2 = SQLITE_OK" and p: "p = Lookup h binds" "w' = w3"
    using ok h b by (auto simp: begin_get_url_def Let_def split: if_splits)
  show ?thesis
    using prepared_handle [OF sq h prep] get p bt mk bound by simp
qed

lemma begin_store_pending:
  assumes sq: "sqlite_ok (sql e) rows" and ok: "begin_store e req path url token w = Inr (p, w')"
    and post: "req_method req = Post" and tok: "is_token token" and http: "http_url url"
  shows "pending_ok e req p \<and> sent w' = sent w \<and> db w' = db w"
proof -
  obtain h w1 where h: "make_sqlite3_handle e (db_file e) w = (h, w1)" by fastforce
  note mk = make_handle_effect [OF h]
  obtain rc1 binds1 w3 where b1: "bind_text e h insert_sql 1 token [] (io (SqlPrepare insert_sql True) w1) = (rc1, binds1, w3)"
    by (metis prod_cases3)
  obtain rc2 binds2 w4 where b2: "bind_text e h insert_sql 2 url binds1 w3 = (rc2, binds2, w4)"
    by (metis prod_cases3)
  note bt1 = bind_text_effect [OF b1] and bt2 = bind_text_effect [OF b2]
  have prep: "sqlite3_prepare (sql e) (db w1) h insert_sql = SQLITE_OK"
    and p: "p = Insert h binds2 path (post_data e url token)" "w' = w4"
    using ok h b1 b2 by (auto simp: begin_store_def Let_def split: if_splits)
  have "is_token t \<and> http_url u \<and> NUL \<notin> set u" if "map_of binds2 1 = Some t" "map_of binds2 2 = Some u" for t u
  proof -
    have "t = token" "u = cstr url"
      using that bt1(5) bt2(5) cstr_token [OF tok] by (auto split: if_splits)
    then show ?thesis using tok http_url_cstr [OF http] by simp
  qed
  moreover have "sent w4 = sent w" "db w4 = db w"
    using bt1(1,2) bt2(1,2) mk(1,2) by simp_all
  ultimately show ?thesis
    using prepared_handle [OF sq h prep] post p by (simp only: pending_ok.simps) blast
qed

lemma begin_pending:
  assumes env: "env_ok rows e" and ok: "begin_request e req w = Ok (Inr (p, w'))"
  shows "pending_ok e req p \<and> sent w' = sent w \<and> db w' = db w"
proof -
  have sq: "sqlite_ok (sql e) rows" and b: "boost_ok (boost e)" and r: "rng_ok (rand e)"
    using env by (simp_all add: env_ok_def)
  obtain fn where fn: "begin_route e fn req w = Ok (Inr (p, w'))"
    using ok by (auto simp: begin_request_def split: if_splits option.splits)
  show ?thesis
  proof (cases fn)
    case HandlePost
    then have run: "begin_post e req w = Ok (Inr (p, w'))" using fn by simp
    then have post: "req_method req = Post" by (auto simp: begin_post_def Let_def split: if_splits)
    then obtain path found where "template_path e req = Ok path" "request_url e req = Ok found"
      using run by (auto simp: begin_post_def Let_def res_simps)
    with run post obtain url where found: "found = Inr url" "http_url url"
      by (cases found) (auto simp: begin_post_def split: if_splits)
    then obtain token n where g: "generate_random_filename (boost e) (rand e) (rd_count w) = Some (token, n)"
      and st: "begin_store e req path url token (w\<lparr>rd_count := n\<rparr>) = Inr (p, w')"
      using run post \<open>template_path e req = Ok path\<close> \<open>request_url e req = Ok found\<close>
      by (auto simp: begin_post_def split: option.splits)
    have "is_token token"
      using g generate_random_filename_token [OF b r, of "rd_count w"] by auto
    then show ?thesis using begin_store_pending [OF sq st post _ found(2)] by simp
  next
    case HandleGetUrl
    then show ?thesis using fn begin_get_url_pending [OF sq] by simp
  qed (use fn in \<open>auto simp: res_simps\<close>)
qed

text \<open>
  The second phase, from whatever the database has become: it returns, answers the request, and adds
  at most one link, which is new to the database as it is then.
\<close>

lemma finish_lookup:
  assumes sq: "sqlite_ok (sql e) rows" and p: "pending_ok e req (Lookup h binds)"
  shows "\<exists>w' r. finish_request e req (Lookup h binds) w = Ok w' \<and> replied e req w w' r \<and>
           rows (db w') = rows (db w) \<and> leads_to (table rows e w) (cstr (drop 1 (req_target req))) r"
proof -
  obtain step col d' where st: "sqlite3_step (sql e) (db w) h select_sql binds = (step, col, d')"
    by (metis prod_cases3)
  note sel = select_step [OF sq st]
  show ?thesis
  proof (cases "step = SQLITE_ROW")
    case True
    then obtain c where "col = Some c" "(cstr (drop 1 (req_target req)), c) \<in> set (table rows e w)"
      using sel(2) p by auto
    then show ?thesis
      using True st p sel(1) by (auto simp: step_select_def replied_def leads_to_def)
  next
    case False
    then show ?thesis
      using st p sel(1) by (simp add: step_select_def replied_def leads_to_def)
  qed
qed

lemma finish_insert:
  assumes sq: "sqlite_ok (sql e) rows" and p: "pending_ok e req (Insert h binds path data)"
  shows "\<exists>w' r. finish_request e req (Insert h binds path data) w = Ok w' \<and> replied e req w w' r \<and>
           res_status r \<noteq> 301 \<and> row_step (table rows e w) (table rows e w')"
proof -
  obtain step col d' where st: "sqlite3_step (sql e) (db w) h insert_sql binds = (step, col, d')"
    by (metis prod_cases3)
  note ins = insert_step [OF sq st]
  define w5 where "w5 = io SqlStep (w\<lparr>db := d'\<rparr>)"
  define w6 where "w6 = (if step \<noteq> SQLITE_DONE then sql_failure e req ''SQL error: '' h step w5
                         else serve_template e req path data w5)"
  have fin: "finish_request e req (Insert h binds path data) w = Ok (close_handle h (io SqlFinalize w6))"
    using st by (simp add: w5_def w6_def Let_def)
  have w5: "sent w5 = sent w" "db w5 = d'" by (simp_all add: w5_def io_def)
  have post: "req_method req = Post" using p by simp
  have "\<exists>r. sent w6 = sent w @ [r] \<and> answers (beast_version e) req r \<and> response_ok (req_method req) r \<and>
          res_status r \<noteq> 301" and d6: "db w6 = d'"
    using w5 post by (auto simp: w6_def serve_template_eq page_response_def split: sum.split)
  then obtain r where r: "replied e req w (close_handle h (io SqlFinalize w6)) r" "res_status r \<noteq> 301"
    by (auto simp: replied_def)
  have "table rows e (close_handle h (io SqlFinalize w6)) = rows d' (db_file e)"
    using d6 by simp
  moreover have "row_step (table rows e w) (rows d' (db_file e))"
    using ins p by (cases "step = SQLITE_DONE") (auto simp: row_step_def)
  ultimately show ?thesis using fin r by auto
qed

lemma finish_effect:
  assumes env: "env_ok rows e" and p: "pending_ok e req p"
  shows "\<exists>w' r. finish_request e req p w = Ok w' \<and> replied e req w w' r \<and>
           (res_status r = 301 \<longrightarrow> leads_to (table rows e w) (cstr (drop 1 (req_target req))) r) \<and>
           row_step (table rows e w) (table rows e w')"
proof (cases p)
  case (Lookup h binds)
  with finish_lookup [of e rows req h binds w] env p show ?thesis by (fastforce simp: env_ok_def)
next
  case (Insert h binds path data)
  with finish_insert [of e rows req h binds path data w] env p show ?thesis by (fastforce simp: env_ok_def)
qed

text \<open>The second phase of a lookup, by the result of its step.\<close>

lemma finish_lookup_result:
  assumes sq: "sqlite_ok (sql e) rows" and tab: "table_ok (table rows e w)"
    and p: "pending_ok e req (Lookup h binds)" and t: "cstr (drop 1 (req_target req)) = t"
    and rc: "rc = fst (sqlite3_step (sql e) (db w) h select_sql binds)"
  shows "\<exists>w'. finish_request e req (Lookup h binds) w = Ok w' \<and>
           ((\<exists>u. rc = SQLITE_ROW \<and> map_of (table rows e w) t = Some u \<and>
                 sent w' = sent w @ [redirect_permanent (beast_version e) req u]) \<or>
            rc = SQLITE_DONE \<and> map_of (table rows e w) t = None \<and>
              sent w' = sent w @ [redirect_permanent (beast_version e) req rickroll] \<or>
            rc \<notin> {SQLITE_ROW, SQLITE_DONE} \<and>
              sent w' = sent w @ [redirect_permanent (beast_version e) req rickroll])"
proof -
  obtain col d' where st: "sqlite3_step (sql e) (db w) h select_sql binds = (rc, col, d')"
    using rc by (metis fst_conv prod_cases3)
  note sel = select_step [OF sq st]
  show ?thesis
  proof (cases "rc = SQLITE_ROW")
    case True
    then obtain u where u: "col = Some u" "(t, u) \<in> set (table rows e w)"
      using sel(2) p t by auto
    then have "map_of (table rows e w) t = Some u" using table_ok_get [OF tab] by simp
    then show ?thesis
      using st True u table_ok_url [OF tab u(2)] by (simp add: step_select_def)
  next
    case False
    have "rc = SQLITE_DONE \<longrightarrow> map_of (table rows e w) t = None"
      using sel(3) p t by (simp add: map_of_eq_None_iff)
    then show ?thesis using st False by (cases "rc = SQLITE_DONE") (simp_all add: step_select_def)
  qed
qed

text \<open>The second phase of a post: what the answer says of the table.\<close>

fun pending_url :: "pending \<Rightarrow> string option" where
  "pending_url (Lookup h binds) = None"
| "pending_url (Insert h binds path data) = map_of binds 2"

lemma finish_insert_status:
  assumes sq: "sqlite_ok (sql e) rows" and p: "pending_ok e req p" and u: "pending_url p = Some u"
    and fin: "finish_request e req p w = Ok w'" and r: "sent w' = sent w @ [r]"
  shows "if res_status r = 500 then table rows e w' = table rows e w
         else u \<notin> snd ` set (table rows e w) \<and> (\<exists>t. table rows e w' = table rows e w @ [(t, u)])"
proof -
  obtain h binds path data where pd: "p = Insert h binds path data" "h = Some (db_file e)" "map_of binds 2 = Some u"
    "req_method req = Post"
    using p u by (cases p) auto
  obtain rc col d' where st: "sqlite3_step (sql e) (db w) h insert_sql binds = (rc, col, d')"
    by (metis prod_cases3)
  note ins = insert_step [OF sq st]
  define w5 where "w5 = io SqlStep (w\<lparr>db := d'\<rparr>)"
  have w5: "sent w5 = sent w" "db w5 = d'" by (simp_all add: w5_def io_def)
  have w': "w' = close_handle h (io SqlFinalize
      (if rc \<noteq> SQLITE_DONE then sql_failure e req ''SQL error: '' h rc w5 else serve_template e req path data w5))"
    using fin pd(1) st by (auto simp: w5_def Let_def)
  show ?thesis
  proof (cases "rc = SQLITE_DONE")
    case True
    have "res_status r \<noteq> 500"
      using r w5 True by (auto simp: w' serve_template_eq)
    then show ?thesis
      using True ins pd(2,3) w5 by (auto simp: w' serve_template_eq)
  next
    case False
    have "res_status r = 500" using r w5 False by (auto simp: w')
    then show ?thesis using False ins w5 by (simp add: w')
  qed
qed

lemma begin_lookup_available:
  assumes av: "sqlite_available (sql e) rows"
    and get: "req_method req = Get" and target: "req_target req = CHR ''/'' # t" and t: "is_token t"
  shows "\<exists>w'. begin_request e req w = Ok (Inr (Lookup (Some (db_file e)) [(1, t)], w'))"
  using token_route [OF t] get target
  by (simp add: begin_request_def begin_get_url_def make_handle_available [OF av] prepare_available [OF av]
      bind_available [OF av] cstr_token [OF t] Let_def)

text \<open>A post whose calls all succeed, and whose token and URL are new.\<close>

lemma begin_post_available:
  assumes env: "env_ok rows e" and av: "sqlite_available (sql e) rows"
    and post: "req_method req = Post" and target: "req_target req = ''/post.html''"
    and url: "request_url e req = Ok (Inr url)" "http_url url"
  shows "\<exists>w' t path data. begin_request e req w = Ok (Inr (Insert (Some (db_file e)) [(2, cstr url), (1, t)] path data, w'))"
proof -
  obtain token where g: "generate_random_filename (boost e) (rand e) (rd_count w) = Some (token, Suc (rd_count w))"
    using generate_random_filename_token env by (metis env_ok_def)
  have legal: "\<not> illegal_target (req_target req)" unfolding target by code_simp
  obtain path where p: "template_path e req = Ok path"
    using template_path_ok [OF legal] by blast
  have "find_route routes (req_target req) = Some HandlePost"
    unfolding route_url_target by (rule target)
  then show ?thesis
    using legal post url g p
    by (simp add: begin_request_def begin_post_def begin_store_def make_handle_available [OF av]
        prepare_available [OF av] bind_available [OF av] Let_def)
qed

lemma finish_insert_available:
  assumes av: "sqlite_available (sql e) rows" and new: "t \<notin> fst ` set (table rows e w)" "u \<notin> snd ` set (table rows e w)"
  shows "\<exists>w' r. finish_request e req (Insert (Some (db_file e)) [(2, u), (1, t)] path data) w = Ok w' \<and>
           sent w' = sent w @ [r] \<and> res_status r \<noteq> 500"
proof -
  obtain rc col d' where st: "sqlite3_step (sql e) (db w) (Some (db_file e)) insert_sql [(2, u), (1, t)] = (rc, col, d')"
    by (metis prod_cases3)
  have "rc = SQLITE_DONE"
    using insert_available [OF av, of "[(2, u), (1, t)]" t u "db w" "db_file e"] new st by simp
  then show ?thesis using st by (simp add: serve_template_eq io_def send_def close_handle_def)
qed

section \<open>One step per request\<close>

definition steps :: "'d world \<Rightarrow> nat" where
  "steps w = count_list (trace w) SqlStep"

lemma steps_simps [simp]:
  "steps (send r w) = steps w" "steps (syslog p m w) = steps w"
  "steps (io a w) = steps w + (if a = SqlStep then 1 else 0)"
  "steps (w\<lparr>db := d\<rparr>) = steps w" "steps (w\<lparr>rd_count := n\<rparr>) = steps w"
  "steps (close_handle h w) = steps w" "steps (sql_failure e req pre h rc w) = steps w"
  "steps (serve_template e req path data w) = steps w"
  by (simp_all add: steps_def send_def syslog_def io_def close_handle_def sql_failure_def serve_template_eq Let_def)

lemma make_handle_steps: "make_sqlite3_handle e p w = (h, w1) \<Longrightarrow> steps w1 = steps w"
  by (auto simp: make_sqlite3_handle_def Let_def split: prod.splits if_splits)

lemma bind_text_steps: "bind_text e h q i v binds w = (rc, binds', w1) \<Longrightarrow> steps w1 = steps w"
  by (auto simp: bind_text_def Let_def)

text \<open>The world at the end of the first phase, and what it has in common with the one before.\<close>

fun phase_world :: "'d world + pending \<times> 'd world \<Rightarrow> 'd world" where
  "phase_world (Inl w) = w"
| "phase_world (Inr (p, w)) = w"

definition quiet :: "'d world \<Rightarrow> 'd world + pending \<times> 'd world \<Rightarrow> bool" where
  "quiet w r \<longleftrightarrow> db (phase_world r) = db w \<and> steps (phase_world r) = steps w \<and>
     length (sent (phase_world r)) = length (sent w) + (case r of Inl _ \<Rightarrow> 1 | Inr _ \<Rightarrow> 0)"

lemma begin_get_url_quiet:
  assumes "begin_get_url e req w = Ok r"
  shows "quiet w r"
proof (cases "req_method req = Get")
  case True
  obtain h w1 where h: "make_sqlite3_handle e (db_file e) w = (h, w1)" by fastforce
  obtain rc2 binds w3 where b: "bind_text e h select_sql 1 (drop 1 (req_target req)) []
      (io (SqlPrepare select_sql True) w1) = (rc2, binds, w3)"
    by (metis prod_cases3)
  show ?thesis
    using assms True h b make_handle_effect(1,2) [OF h] make_handle_steps [OF h] bind_text_effect(1,2) [OF b] bind_text_steps [OF b]
    by (auto simp: begin_get_url_def quiet_def Let_def split: if_splits)
qed (use assms in \<open>auto simp: begin_get_url_def quiet_def\<close>)

lemma begin_store_quiet: "quiet w (begin_store e req path url token w)"
proof -
  obtain h w1 where h: "make_sqlite3_handle e (db_file e) w = (h, w1)" by fastforce
  obtain rc1 binds1 w3 where b1: "bind_text e h insert_sql 1 token [] (io (SqlPrepare insert_sql True) w1) = (rc1, binds1, w3)"
    by (metis prod_cases3)
  obtain rc2 binds2 w4 where b2: "bind_text e h insert_sql 2 url binds1 w3 = (rc2, binds2, w4)"
    by (metis prod_cases3)
  show ?thesis
    using h b1 b2 make_handle_effect(1,2) [OF h] make_handle_steps [OF h]
      bind_text_effect(1,2) [OF b1] bind_text_steps [OF b1] bind_text_effect(1,2) [OF b2] bind_text_steps [OF b2]
    by (auto simp: begin_store_def quiet_def Let_def)
qed

lemma begin_post_quiet:
  assumes "begin_post e req w = Ok r"
  shows "quiet w r"
proof -
  have "quiet w (begin_store e req path url token (w\<lparr>rd_count := n\<rparr>))" for path url token n
    using begin_store_quiet [of "w\<lparr>rd_count := n\<rparr>" e req path url token] by (simp add: quiet_def)
  moreover have "quiet w (Inl (send m w))" for m by (simp add: quiet_def)
  ultimately show ?thesis
    using assms
    by (cases "template_path e req"; cases "request_url e req")
       (auto simp: begin_post_def Let_def split: if_splits sum.splits option.splits)
qed

lemma begin_request_quiet:
  assumes "begin_request e req w = Ok r"
  shows "quiet w r"
proof (cases "\<not> illegal_target (req_target req) \<and> find_route routes (req_target req) \<noteq> None")
  case True
  then obtain fn where fn: "begin_route e fn req w = Ok r"
    using assms by (auto simp: begin_request_def)
  show ?thesis
  proof (cases fn)
    case HandleFile
    with fn show ?thesis
      by (auto simp: handle_file_def quiet_def Let_def res_simps split: if_splits open_result.splits)
  next
    case HandleGetTemplate
    with fn show ?thesis
      by (auto simp: handle_get_template_def quiet_def Let_def res_simps serve_template_eq split: if_splits)
  qed (use fn begin_post_quiet begin_get_url_quiet in auto)
qed (use assms in \<open>auto simp: begin_request_def quiet_def split: if_splits option.splits\<close>)

lemma finish_request_steps:
  assumes "finish_request e req p w = Ok w'"
  shows "steps w' = Suc (steps w) \<and> length (sent w') = Suc (length (sent w))"
proof (cases p)
  case (Lookup h binds)
  obtain step col d' where "sqlite3_step (sql e) (db w) h select_sql binds = (step, col, d')"
    by (metis prod_cases3)
  with assms Lookup show ?thesis
    by (auto simp: step_select_def Let_def res_simps split: if_splits option.splits)
next
  case (Insert h binds path data)
  obtain step col d' where "sqlite3_step (sql e) (db w) h insert_sql binds = (step, col, d')"
    by (metis prod_cases3)
  with assms Insert show ?thesis by (auto simp: Let_def serve_template_eq)
qed

text \<open>
  C30: A request makes at most one call of \<^verbatim>\<open>sqlite3_step\<close>, and the cut of its handler is right
  before it: the first phase makes no such call, leaves the database alone, and has answered
  exactly when there is nothing left to do; the second phase makes the one call and sends the one
  response, whatever world it finds.
\<close>

theorem one_step_per_request:
  assumes "begin_request e req w = Ok r"
  shows "db (phase_world r) = db w \<and> steps (phase_world r) = steps w \<and>
         length (sent (phase_world r)) = length (sent w) + (case r of Inl _ \<Rightarrow> 1 | Inr _ \<Rightarrow> 0) \<and>
         (\<forall>p w1 w2 w3. r = Inr (p, w1) \<and> finish_request e req p w2 = Ok w3 \<longrightarrow>
            steps w3 = Suc (steps w2) \<and> length (sent w3) = Suc (length (sent w2)))"
  using begin_request_quiet [OF assms] finish_request_steps unfolding quiet_def by blast

theorem one_step_per_request_witness:
  "\<exists>p w1 w3. begin_request demo_env demo_post demo_world = Ok (Inr (p, w1)) \<and> steps w1 = 0 \<and> sent w1 = [] \<and>
     finish_request demo_env demo_post p w1 = Ok w3 \<and> steps w3 = 1 \<and> length (sent w3) = 1"
proof -
  have "sqlite_available (sql demo_env) (\<lambda>d. d)" by simp
  then obtain p w1 where b: "begin_request demo_env demo_post demo_world = Ok (Inr (p, w1))"
    using begin_post_available [OF demo_env_ok _ _ _ demo_request_url demo_http, of demo_world]
    by (auto simp: demo_post_def)
  obtain w3 where fin: "finish_request demo_env demo_post p w1 = Ok w3"
    using finish_effect [OF demo_env_ok, of demo_post p w1] begin_pending [OF demo_env_ok b] by blast
  have "steps demo_world = 0" "sent demo_world = []" by (simp_all add: steps_def demo_world_def)
  with one_step_per_request [OF b] b fin show ?thesis by auto
qed

end
