(* ===== verification/System.thy ===== *)
theory System
  imports Acceptor Service Phases
begin

text \<open>
  The running server: what \<^verbatim>\<open>main\<close> has handed to the \<^verbatim>\<open>io_context\<close>. Listeners,
  the detectors they launched, the sessions those launched, the world the request handlers share,
  and the wait for a signal. A step completes one operation in flight of one of these objects and
  runs its handler; steps of different objects come in any order, as on the strands of the program.
  A request handler that works on the database takes two steps (\<open>Began\<close>, \<open>Resumed\<close>), between which
  the handlers of other sessions run on other threads; its own session is busy meanwhile.
\<close>

section \<open>The state of the server\<close>

text \<open>
  A handler that does not return ends the program: an exception leaves \<^verbatim>\<open>run()\<close>, in
  whatever thread. Or its behaviour is undefined, and nothing is claimed of what follows; such a run
  ends here with that mark.
\<close>

datatype crash = Escaped exn | UndefinedBehaviour

fun crash_of :: "'a res \<Rightarrow> crash option" where
  "crash_of (Ok x) = None"
| "crash_of (Exn x) = Some (Escaped x)"
| "crash_of UB = Some UndefinedBehaviour"

text \<open>A handler between its two phases: its session, its request, the rest of the buffer.\<close>

record job =
  job_session :: nat
  job_request :: request
  job_rest :: string
  job_pending :: pending

record 'd server =
  sv_listeners :: "listener list"
  sv_detectors :: "detector list"
  sv_sessions :: "session list"
  sv_world :: "'d world"
  sv_jobs :: "job list"
  sv_signals :: nat                    \<comment> \<open>waits for \<^verbatim>\<open>SIGINT\<close> or \<^verbatim>\<open>SIGTERM\<close> in flight\<close>
  sv_stopped :: bool                   \<comment> \<open>\<^verbatim>\<open>ioc.stop()\<close> was called\<close>
  sv_crash :: "crash option"
  sv_accepted :: nat                   \<comment> \<open>ghost: accepts that completed without error\<close>

definition busy :: "'d server \<Rightarrow> nat \<Rightarrow> bool" where
  "busy c i \<longleftrightarrow> i \<in> job_session ` set (sv_jobs c)"

definition running :: "'d server \<Rightarrow> bool" where
  "running c \<longleftrightarrow> \<not> sv_stopped c \<and> sv_crash c = None"

definition wait_signals :: "'d server \<Rightarrow> 'd server" where
  "wait_signals c = c\<lparr>sv_signals := sv_signals c + 1\<rparr>"

text \<open>
  Stopping the context: no further completion handler is called, but those that are at work on other
  threads go on to their end (\<open>Resumed\<close> below), and the writes they start are handed to the socket,
  which may take bytes at once, though no handler hears of it.
\<close>

definition on_signal :: "'d server \<Rightarrow> 'd server" where
  "on_signal c = c\<lparr>sv_stopped := True\<rparr>"

definition boot :: "listener list \<Rightarrow> 'd world \<Rightarrow> 'd server" where
  "boot ls w = wait_signals
     \<lparr>sv_listeners = ls, sv_detectors = [], sv_sessions = [], sv_world = w, sv_jobs = [], sv_signals = 0,
      sv_stopped = False, sv_crash = None, sv_accepted = 0\<rparr>"

lemma boot_simps [simp]:
  "sv_listeners (boot ls w) = ls" "sv_detectors (boot ls w) = []" "sv_sessions (boot ls w) = []"
  "sv_world (boot ls w) = w" "sv_jobs (boot ls w) = []" "sv_signals (boot ls w) = 1" "running (boot ls w)"
  "sv_accepted (boot ls w) = 0"
  by (simp_all add: boot_def wait_signals_def running_def)

section \<open>Steps\<close>

text \<open>
  Time passes for all sessions and detectors at once. The clock of a busy session stands still: its
  time limits are enforced on its strand, after the handler. So does the clock of a detector whose
  dispatched handler is ready to run.
\<close>

definition wait_session :: "'d server \<Rightarrow> nat \<Rightarrow> nat \<Rightarrow> session" where
  "wait_session c d i =
     (let s = sv_sessions c ! i in if busy c i then s else s\<lparr>clock := clock s + d\<rparr>)"

definition wait_detector :: "nat \<Rightarrow> detector \<Rightarrow> detector" where
  "wait_detector t d = (if dispatched d = 0 then d\<lparr>det_clock := det_clock d + t\<rparr> else d)"

definition pass_time :: "nat \<Rightarrow> 'd server \<Rightarrow> 'd server" where
  "pass_time d c =
     c\<lparr>sv_sessions := map (wait_session c d) [0..<length (sv_sessions c)],
       sv_detectors := map (wait_detector d) (sv_detectors c)\<rparr>"

definition may_wait :: "nat \<Rightarrow> 'd server \<Rightarrow> bool" where
  "may_wait d c \<longleftrightarrow>
     (\<forall>i<length (sv_sessions c). busy c i \<or> in_time (sv_sessions c ! i) (clock (sv_sessions c ! i) + d)) \<and>
     (\<forall>x\<in>set (sv_detectors c). detecting x = 0 \<or> within (detect_due x) (det_clock x + d))"

text \<open>The completions whose handler does not return.\<close>

inductive session_crash ::
    "('d, 't) env \<Rightarrow> (response \<Rightarrow> bool) \<Rightarrow> session \<times> 'd world \<Rightarrow> crash \<Rightarrow> bool"
  for e :: "('d, 't) env" and need_eof :: "response \<Rightarrow> bool"
where
  ReadCrash: "reads s = Suc n \<Longrightarrow> crash_of (on_read e ec req (s\<lparr>reads := n, inbuf := buf\<rparr>) w) = Some x \<Longrightarrow>
     admits s ec req \<Longrightarrow> session_crash e need_eof (s, w) x"
| WriteCrash: "writes s = xs @ m # ys \<Longrightarrow>
     crash_of (on_write (need_eof m) ec (s\<lparr>writes := xs @ ys\<rparr>)) = Some x \<Longrightarrow>
     session_crash e need_eof (s, w) x"

inductive server_step ::
    "('d, 't) env \<Rightarrow> (response \<Rightarrow> bool) \<Rightarrow> 'd server \<Rightarrow> 'd server \<Rightarrow> bool"
  for e :: "('d, 't) env" and need_eof :: "response \<Rightarrow> bool"
where
  Accepted: "running c \<Longrightarrow> i < length (sv_listeners c) \<Longrightarrow> accepts (sv_listeners c ! i) = Suc n \<Longrightarrow>
     l = on_accept ec ((sv_listeners c ! i)\<lparr>accepts := n\<rparr>) \<Longrightarrow>
     server_step e need_eof c
       (c\<lparr>sv_listeners := (sv_listeners c)[i := l],
          sv_detectors := sv_detectors c @ drop (length (launched (sv_listeners c ! i))) (launched l),
          sv_accepted := sv_accepted c + (if ec = Success then 1 else 0)\<rparr>)"
| Dispatched: "running c \<Longrightarrow> i < length (sv_detectors c) \<Longrightarrow> dispatched (sv_detectors c ! i) = Suc n \<Longrightarrow>
     server_step e need_eof c
       (c\<lparr>sv_detectors := (sv_detectors c)[i := on_run ((sv_detectors c ! i)\<lparr>dispatched := n\<rparr>)]\<rparr>)"
| Detected: "running c \<Longrightarrow> i < length (sv_detectors c) \<Longrightarrow> detecting (sv_detectors c ! i) = Suc n \<Longrightarrow>
     on_detect ec result ((sv_detectors c ! i)\<lparr>detecting := n, det_buffer := buf\<rparr>) = (d, new) \<Longrightarrow>
     server_step e need_eof c
       (c\<lparr>sv_detectors := (sv_detectors c)[i := d],
          sv_sessions := sv_sessions c @ (case new of None \<Rightarrow> [] | Some s \<Rightarrow> [s])\<rparr>)"
| Moved: "running c \<Longrightarrow> i < length (sv_sessions c) \<Longrightarrow> \<not> busy c i \<Longrightarrow>
     session_move e need_eof (sv_sessions c ! i, sv_world c) (s, w) \<Longrightarrow>
     server_step e need_eof c (c\<lparr>sv_sessions := (sv_sessions c)[i := s], sv_world := w\<rparr>)"
| Began: "running c \<Longrightarrow> i < length (sv_sessions c) \<Longrightarrow> \<not> busy c i \<Longrightarrow> reads (sv_sessions c ! i) = Suc n \<Longrightarrow>
     begin_request e req (sv_world c) = Ok (Inr (p, w)) \<Longrightarrow> admits (sv_sessions c ! i) Success req \<Longrightarrow>
     server_step e need_eof c
       (c\<lparr>sv_world := w,
          sv_jobs := sv_jobs c @ [\<lparr>job_session = i, job_request = req, job_rest = buf, job_pending = p\<rparr>]\<rparr>)"
| Resumed: "sv_crash c = None \<Longrightarrow> sv_jobs c = js @ j # ks \<Longrightarrow> reads (sv_sessions c ! job_session j) = Suc n \<Longrightarrow>
     finish_request e (job_request j) (job_pending j) (sv_world c) = Ok w \<Longrightarrow>
     s = after_request (drop (length (sent (sv_world c))) (sent w))
           ((sv_sessions c ! job_session j)\<lparr>reads := n, inbuf := job_rest j\<rparr>) \<Longrightarrow>
     server_step e need_eof c
       (c\<lparr>sv_sessions := (sv_sessions c)[job_session j := note_read Success (job_request j) s],
          sv_world := w, sv_jobs := js @ ks\<rparr>)"
| Crashed: "running c \<Longrightarrow> i < length (sv_sessions c) \<Longrightarrow> \<not> busy c i \<Longrightarrow>
     session_crash e need_eof (sv_sessions c ! i, sv_world c) x \<Longrightarrow>
     server_step e need_eof c (c\<lparr>sv_crash := Some x\<rparr>)"
| ResumeCrashed: "sv_crash c = None \<Longrightarrow> j \<in> set (sv_jobs c) \<Longrightarrow>
     crash_of (finish_request e (job_request j) (job_pending j) (sv_world c)) = Some x \<Longrightarrow>
     server_step e need_eof c (c\<lparr>sv_crash := Some x\<rparr>)"
| Waited: "running c \<Longrightarrow> may_wait d c \<Longrightarrow> server_step e need_eof c (pass_time d c)"
| Signalled: "running c \<Longrightarrow> sv_signals c = Suc n \<Longrightarrow>
     server_step e need_eof c (on_signal (c\<lparr>sv_signals := n\<rparr>))"

lemma pass_time_simps [simp]:
  "sv_listeners (pass_time d c) = sv_listeners c" "sv_detectors (pass_time d c) = map (wait_detector d) (sv_detectors c)"
  "sv_world (pass_time d c) = sv_world c" "sv_jobs (pass_time d c) = sv_jobs c"
  "sv_signals (pass_time d c) = sv_signals c" "sv_stopped (pass_time d c) = sv_stopped c"
  "sv_crash (pass_time d c) = sv_crash c" "sv_accepted (pass_time d c) = sv_accepted c" "length (sv_sessions (pass_time d c)) = length (sv_sessions c)"
  by (simp_all add: pass_time_def)

lemma wait_detector_simps [simp]:
  "owns_stream (wait_detector t d) = owns_stream d" "dispatched (wait_detector t d) = dispatched d"
  "detecting (wait_detector t d) = detecting d" "detect_due (wait_detector t d) = detect_due d"
  by (simp_all add: wait_detector_def)

lemma pass_time_session: "s \<in> set (sv_sessions (pass_time d c)) \<Longrightarrow> \<exists>s0\<in>set (sv_sessions c). \<exists>t. s = s0\<lparr>clock := t\<rparr>"
proof -
  assume "s \<in> set (sv_sessions (pass_time d c))"
  then obtain i where i: "i < length (sv_sessions c)" "s = wait_session c d i" by (auto simp: pass_time_def)
  define s0 where "s0 = sv_sessions c ! i"
  have "s = s0\<lparr>clock := clock s0\<rparr> \<or> s = s0\<lparr>clock := clock s0 + d\<rparr>"
    using i(2) by (simp add: wait_session_def s0_def Let_def)
  moreover have "s0 \<in> set (sv_sessions c)" using i(1) by (simp add: s0_def)
  ultimately show ?thesis by blast
qed

lemma pass_time_nth:
  "i < length (sv_sessions c) \<Longrightarrow> sv_sessions (pass_time d c) ! i = wait_session c d i"
  by (simp add: pass_time_def)

lemma busy_pass_time [simp]: "busy (pass_time d c) i = busy c i"
  by (simp add: busy_def)

text \<open>
  \<^verbatim>\<open>run()\<close> returns when the context was stopped, or when no operation is in flight, on every
  thread as soon as it has no handler left to finish.
\<close>

definition outstanding :: "'d server \<Rightarrow> nat" where
  "outstanding c =
     sum_list (map accepts (sv_listeners c)) +
     sum_list (map (\<lambda>d. dispatched d + detecting d) (sv_detectors c)) +
     sum_list (map session_work (sv_sessions c)) + sv_signals c"

definition run_returns :: "'d server \<Rightarrow> bool" where
  "run_returns c \<longleftrightarrow> sv_crash c = None \<and> sv_jobs c = [] \<and> (sv_stopped c \<or> outstanding c = 0)"

section \<open>The invariant of the server\<close>

definition detector_ok :: "detector \<Rightarrow> bool" where
  "detector_ok d \<longleftrightarrow> dispatched d + detecting d \<le> 1 \<and> (\<not> owns_stream d \<longrightarrow> dispatched d + detecting d = 0)"

text \<open>Every accepted connection has one detector, and every detector that gave its stream away a session.\<close>

definition accounted :: "'d server \<Rightarrow> bool" where
  "accounted c \<longleftrightarrow>
     length (sv_detectors c) = sv_accepted c \<and>
     length (sv_sessions c) = length (filter (\<lambda>d. \<not> owns_stream d) (sv_detectors c))"

definition objects_ok :: "'d server \<Rightarrow> bool" where
  "objects_ok c \<longleftrightarrow> (\<forall>l\<in>set (sv_listeners c). accepts l = 1) \<and> (\<forall>d\<in>set (sv_detectors c). detector_ok d) \<and>
     accounted c \<and> sv_signals c = (if sv_stopped c then 0 else 1)"

text \<open>A handler between its phases belongs to a session of its own, whose read it took.\<close>

definition jobs_ok :: "('d, 't) env \<Rightarrow> 'd server \<Rightarrow> bool" where
  "jobs_ok e c \<longleftrightarrow> distinct (map job_session (sv_jobs c)) \<and>
     (\<forall>j\<in>set (sv_jobs c). job_session j < length (sv_sessions c) \<and> 0 < reads (sv_sessions c ! job_session j) \<and>
        pending_ok e (job_request j) (job_pending j))"

definition server_inv :: "('d \<Rightarrow> string \<Rightarrow> url_rows) \<Rightarrow> ('d, 't) env \<Rightarrow> 'd server \<Rightarrow> bool" where
  "server_inv rows e c \<longleftrightarrow>
     store_inv rows e (sv_world c) \<and> (\<forall>s\<in>set (sv_sessions c). session_inv (beast_version e) s) \<and>
     objects_ok c \<and> jobs_ok e c \<and> sv_crash c \<in> {None, Some (Escaped LengthError), Some UndefinedBehaviour}"

text \<open>Counts over a list with one element replaced.\<close>

lemma count_replace:
  "i < length xs \<Longrightarrow> length (filter P (xs[i := x])) + (if P (xs ! i) then 1 else 0) =
     length (filter P xs) + (if P x then 1 else 0)"
proof (induction xs arbitrary: i)
  case (Cons y ys)
  then show ?case by (cases i) (auto simp: Let_def)
qed simp

lemma all_replace: "\<forall>x\<in>set xs. P x \<Longrightarrow> P x \<Longrightarrow> \<forall>y\<in>set (xs[i := x]). P y"
  using set_update_subset_insert by fastforce

text \<open>One lemma per kind of step.\<close>

lemma accepted_inv:
  assumes inv: "objects_ok c" and i: "i < length (sv_listeners c)" "accepts (sv_listeners c ! i) = Suc n"
    and l: "l = on_accept ec ((sv_listeners c ! i)\<lparr>accepts := n\<rparr>)"
  shows "objects_ok (c\<lparr>sv_listeners := (sv_listeners c)[i := l],
           sv_detectors := sv_detectors c @ drop (length (launched (sv_listeners c ! i))) (launched l),
           sv_accepted := sv_accepted c + (if ec = Success then 1 else 0)\<rparr>)"
proof -
  let ?new = "if ec = Success then [run_detector detect_session] else []"
  have n: "n = 0" using inv i by (auto simp: objects_ok_def)
  then have new: "accepts l = 1" "launched l = launched (sv_listeners c ! i) @ ?new"
    by (simp_all add: l on_accept_def do_accept_def listener_fail_def Let_def)
  have "\<forall>l\<in>set ((sv_listeners c)[i := l]). accepts l = 1"
    using inv new by (intro all_replace) (simp_all add: objects_ok_def)
  moreover have "detector_ok (run_detector detect_session)" "owns_stream (run_detector detect_session)"
    by (simp_all add: detector_ok_def run_detector_def detect_session_def)
  ultimately show ?thesis
    using inv new by (auto simp: objects_ok_def accounted_def)
qed

lemma dispatched_inv:
  assumes inv: "objects_ok c" and i: "i < length (sv_detectors c)" "dispatched (sv_detectors c ! i) = Suc n"
  shows "objects_ok (c\<lparr>sv_detectors := (sv_detectors c)[i := on_run ((sv_detectors c ! i)\<lparr>dispatched := n\<rparr>)]\<rparr>)"
proof -
  let ?d = "on_run ((sv_detectors c ! i)\<lparr>dispatched := n\<rparr>)"
  have d: "detector_ok (sv_detectors c ! i)" using inv i by (simp add: objects_ok_def)
  then have d': "detector_ok ?d" "owns_stream ?d" "owns_stream (sv_detectors c ! i)"
    using i by (auto simp: detector_ok_def on_run_def)
  then have "\<forall>d\<in>set ((sv_detectors c)[i := ?d]). detector_ok d"
    using inv by (intro all_replace) (simp_all add: objects_ok_def)
  then show ?thesis
    using inv count_replace [OF i(1), of "\<lambda>d. \<not> owns_stream d" ?d] d'
    by (simp add: objects_ok_def accounted_def)
qed

lemma detected_inv:
  assumes inv: "objects_ok c" and i: "i < length (sv_detectors c)" "detecting (sv_detectors c ! i) = Suc n"
    and on: "on_detect ec result ((sv_detectors c ! i)\<lparr>detecting := n, det_buffer := buf\<rparr>) = (d, new)"
  shows "objects_ok (c\<lparr>sv_detectors := (sv_detectors c)[i := d],
           sv_sessions := sv_sessions c @ (case new of None \<Rightarrow> [] | Some s \<Rightarrow> [s])\<rparr>)"
proof -
  let ?d0 = "sv_detectors c ! i"
  have d: "detector_ok ?d0" using inv i by (simp add: objects_ok_def)
  then have d0: "n = 0" "dispatched ?d0 = 0" "owns_stream ?d0"
    using i by (auto simp: detector_ok_def)
  note on = on_detect_session [OF on]
  have "detector_ok d"
    using on d0 by (simp add: detector_ok_def)
  then have "\<forall>d\<in>set ((sv_detectors c)[i := d]). detector_ok d"
    using inv by (intro all_replace) (simp_all add: objects_ok_def)
  moreover have "length (filter (\<lambda>d. \<not> owns_stream d) ((sv_detectors c)[i := d])) =
      length (filter (\<lambda>d. \<not> owns_stream d) (sv_detectors c)) + (if ec = Success then 1 else 0)"
    using count_replace [OF i(1), of "\<lambda>d. \<not> owns_stream d" d] on d0 by simp
  ultimately show ?thesis
    using inv on by (simp add: objects_ok_def accounted_def)
qed

text \<open>The handlers of a session and their exceptions.\<close>

lemma on_read_outcome:
  assumes "env_ok rows e"
  shows "(on_read e ec req s w = UB \<longleftrightarrow> ec = Success \<and> handle_request e req w = UB) \<and>
         (on_read e ec req s w = Exn x \<longleftrightarrow> ec = Success \<and> handle_request e req w = Exn x)"
  by (cases ec; cases "handle_request e req w") (auto simp: on_read_def Let_def)

lemma session_crash_only:
  assumes "env_ok rows e" and "session_inv (beast_version e) s" and "session_crash e need_eof (s, w) x"
  shows "(x = Escaped LengthError \<or> x = UndefinedBehaviour) \<and> 0 < reads s"
  using assms(3)
proof cases
  case (ReadCrash n ec req buf)
  then show ?thesis
    using on_read_outcome [OF assms(1), of ec req "s\<lparr>reads := n, inbuf := buf\<rparr>" w]
      handle_request_outcome [OF assms(1), of req w]
    by (cases "on_read e ec req (s\<lparr>reads := n, inbuf := buf\<rparr>) w") auto
next
  case (WriteCrash xs m ys ec)
  then show ?thesis
    using on_write_returns [OF assms(2) WriteCrash(1), of "need_eof m" ec] by auto
qed

text \<open>Both can be had by a client whose request is being read: a flood and a bad escape fit into the limit.\<close>

lemma request_crashes:
  assumes "session_inv ver s" and "0 < reads s" and "length (req_body req) \<le> 10000"
    and "crash_of (handle_request e req w) = Some x"
  shows "session_crash e need_eof (s, w) x"
proof -
  obtain n where n: "reads s = Suc n" using assms(2) by (cases "reads s") auto
  have "crash_of (on_read e Success req (s\<lparr>reads := n, inbuf := []\<rparr>) w) = Some x"
    using assms(4) by (cases "handle_request e req w") (simp_all add: on_read_def)
  moreover have "admits s Success req"
    using admits_read [OF assms(1,2)] assms(3) by simp
  ultimately show ?thesis by (rule ReadCrash [OF n])
qed

lemma read_crashes:
  assumes "env_ok rows e" and "session_inv ver s" and "0 < reads s"
    and "x = Escaped LengthError \<or> x = UndefinedBehaviour"
  shows "session_crash e need_eof (s, w) x"
  using assms(4)
proof
  assume x: "x = Escaped LengthError"
  have "handle_request e flood w = Exn LengthError"
    using handle_request_outcome [OF assms(1), of flood w LengthError] flood_flooded by simp
  then show ?thesis using x by (intro request_crashes [OF assms(2,3), of flood]) (simp_all add: flood_def)
next
  assume x: "x = UndefinedBehaviour"
  have "handle_request e bad_escape w = UB"
    using handle_request_outcome [OF assms(1), of bad_escape w] bad_escape_unsafe by simp
  then show ?thesis using x by (intro request_crashes [OF assms(2,3), of bad_escape]) (simp_all add: bad_escape_def)
qed

lemma jobs_ok_sessions:
  assumes "jobs_ok e c" and "sv_jobs c' = sv_jobs c"
    and "\<And>i. busy c i \<Longrightarrow> i < length (sv_sessions c) \<Longrightarrow>
           i < length (sv_sessions c') \<and> sv_sessions c' ! i = sv_sessions c ! i"
  shows "jobs_ok e c'"
  using assms unfolding jobs_ok_def busy_def by auto

lemma resumed_inv:
  assumes inv: "server_inv rows e c" and j: "sv_jobs c = js @ j # ks"
    and n: "reads (sv_sessions c ! job_session j) = Suc n"
    and ok: "finish_request e (job_request j) (job_pending j) (sv_world c) = Ok w"
    and s: "s = after_request (drop (length (sent (sv_world c))) (sent w))
              ((sv_sessions c ! job_session j)\<lparr>reads := n, inbuf := job_rest j\<rparr>)"
    and c': "c' = c\<lparr>sv_sessions := (sv_sessions c)[job_session j := note_read Success (job_request j) s],
                    sv_world := w, sv_jobs := js @ ks\<rparr>"
  shows "server_inv rows e c' \<and> row_step (table rows e (sv_world c)) (table rows e w)"
proof -
  let ?i = "job_session j"
  have env: "env_ok rows e" and tab: "table_ok (table rows e (sv_world c))"
    and ss: "\<forall>s\<in>set (sv_sessions c). session_inv (beast_version e) s" and ob: "objects_ok c" and jb: "jobs_ok e c"
    using inv by (simp_all add: server_inv_def store_inv_def)
  have i: "?i < length (sv_sessions c)" and p: "pending_ok e (job_request j) (job_pending j)"
    and own: "?i \<notin> job_session ` set (js @ ks)"
    using jb j by (auto simp: jobs_ok_def)
  obtain r where r: "replied e (job_request j) (sv_world c) w r"
    and row: "row_step (table rows e (sv_world c)) (table rows e w)"
    using finish_effect [OF env p, of "sv_world c"] ok by auto
  have "s = after_request [r] ((sv_sessions c ! ?i)\<lparr>reads := n, inbuf := job_rest j\<rparr>)"
    using s r by (simp add: replied_def)
  then have "session_inv (beast_version e) (note_read Success (job_request j) s)"
    using request_handled_inv [OF _ n] ss i r by (simp add: replied_def)
  then have "\<forall>s\<in>set (sv_sessions c'). session_inv (beast_version e) s"
    using all_replace [OF ss] by (simp add: c')
  moreover have "jobs_ok e c'"
    using jb j own by (auto simp: jobs_ok_def c' nth_list_update)
  moreover have "objects_ok c'"
    using ob by (simp add: objects_ok_def accounted_def c')
  moreover have "store_inv rows e w"
    using env row_step_ok [OF row tab] by (simp add: store_inv_def)
  ultimately show ?thesis
    using inv row by (simp add: server_inv_def c')
qed

text \<open>A step keeps the invariant, and refines a step of the abstract map of links.\<close>

lemma moved_inv:
  assumes inv: "server_inv rows e c" and i: "i < length (sv_sessions c)" "\<not> busy c i"
    and mv: "session_move e need_eof (sv_sessions c ! i, sv_world c) (s, w)"
  shows "server_inv rows e (c\<lparr>sv_sessions := (sv_sessions c)[i := s], sv_world := w\<rparr>) \<and>
         row_step (table rows e (sv_world c)) (table rows e w)"
proof -
  have env: "env_ok rows e" and st: "store_inv rows e (sv_world c)"
    and ss: "\<forall>s\<in>set (sv_sessions c). session_inv (beast_version e) s" and jb: "jobs_ok e c"
    using inv by (simp_all add: server_inv_def store_inv_def)
  have "session_inv (beast_version e) s"
    using move_inv [OF env mv] ss i(1) by simp
  then have "\<forall>s\<in>set ((sv_sessions c)[i := s]). session_inv (beast_version e) s"
    by (rule all_replace [OF ss])
  moreover have row: "row_step (table rows e (sv_world c)) (table rows e w)"
    using move_world [OF mv] request_table [OF env] by auto
  moreover from this have "store_inv rows e w"
    using st row_step_ok by (auto simp: store_inv_def)
  moreover have "(sv_sessions c)[i := s] ! k = sv_sessions c ! k" if "busy c k" for k
    using i(2) that by (cases "k = i") auto
  then have "jobs_ok e (c\<lparr>sv_sessions := (sv_sessions c)[i := s], sv_world := w\<rparr>)"
    by (intro jobs_ok_sessions [OF jb]) simp_all
  ultimately show ?thesis
    using inv by (simp add: server_inv_def objects_ok_def accounted_def)
qed

lemma waited_inv:
  assumes inv: "server_inv rows e c"
  shows "server_inv rows e (pass_time d c)"
proof -
  have ss: "\<forall>s\<in>set (sv_sessions c). session_inv (beast_version e) s" and ob: "objects_ok c" and jb: "jobs_ok e c"
    using inv by (simp_all add: server_inv_def)
  have "\<forall>s\<in>set (sv_sessions (pass_time d c)). session_inv (beast_version e) s"
    using ss pass_time_session [of _ d c] by fastforce
  moreover have "jobs_ok e (pass_time d c)"
    by (rule jobs_ok_sessions [OF jb]) (simp_all add: pass_time_nth wait_session_def Let_def)
  moreover have "objects_ok (pass_time d c)"
    using ob by (simp add: objects_ok_def accounted_def detector_ok_def comp_def)
  ultimately show ?thesis using inv by (simp add: server_inv_def)
qed

lemma server_step_inv:
  assumes "server_step e need_eof c c'" and inv: "server_inv rows e c"
  shows "server_inv rows e c' \<and> row_step (table rows e (sv_world c)) (table rows e (sv_world c'))"
proof -
  have env: "env_ok rows e" and st: "store_inv rows e (sv_world c)"
    and ss: "\<forall>s\<in>set (sv_sessions c). session_inv (beast_version e) s" and ob: "objects_ok c" and jb: "jobs_ok e c"
    using inv by (simp_all add: server_inv_def store_inv_def)
  show ?thesis
    using assms(1)
  proof cases
    case (Accepted i n l ec)
    then show ?thesis
      using inv accepted_inv [OF ob Accepted(3-5)] by (simp add: server_inv_def jobs_ok_def)
  next
    case (Dispatched i n)
    then show ?thesis
      using inv dispatched_inv [OF ob Dispatched(3,4)] by (simp add: server_inv_def jobs_ok_def)
  next
    case (Detected i n ec result buf d new)
    have "jobs_ok e c'"
      by (rule jobs_ok_sessions [OF jb]) (simp_all add: Detected(1) nth_append)
    moreover have "session_inv (beast_version e) (new_session k b)" for k b by (rule launched_inv)
    ultimately show ?thesis
      using Detected inv detected_inv [OF ob Detected(3-5)] on_detect_session [OF Detected(5)]
      by (auto simp: server_inv_def)
  next
    case (Moved i s w)
    then show ?thesis using moved_inv [OF inv Moved(3-5)] by simp
  next
    case (Began i n req p w buf)
    note pend = begin_pending [OF env Began(6)]
    have "jobs_ok e c'"
      using jb pend Began(1,3-5) by (auto simp: jobs_ok_def busy_def)
    then show ?thesis
      using Began(1) inv pend by (simp add: server_inv_def store_inv_def objects_ok_def accounted_def)
  next
    case (Resumed js j ks n w s)
    then show ?thesis using resumed_inv [OF inv Resumed(3-6,1)] by simp
  next
    case (Waited d)
    then show ?thesis using waited_inv [OF inv] by simp
  next
    case (Crashed i x)
    have "objects_ok c'" "jobs_ok e c'"
      using ob jb by (simp_all add: Crashed(1) objects_ok_def accounted_def jobs_ok_def)
    then show ?thesis
      using Crashed inv session_crash_only [OF env _ Crashed(5)] ss by (simp add: server_inv_def)
  next
    case (ResumeCrashed j x)
    then show ?thesis
      using jb finish_effect [OF env, of "job_request j" "job_pending j" "sv_world c"] by (auto simp: jobs_ok_def)
  next
    case (Signalled n)
    have "objects_ok c'" "jobs_ok e c'"
      using ob jb Signalled(2,3)
      by (simp_all add: Signalled(1) objects_ok_def accounted_def jobs_ok_def on_signal_def running_def)
    then show ?thesis
      using Signalled(1) inv by (simp add: server_inv_def on_signal_def)
  qed
qed

lemma step_crash:
  assumes "server_step e need_eof c c'" and inv: "server_inv rows e c" and "sv_crash c = None" and "sv_crash c' = Some x"
  shows "running c \<and> (x = Escaped LengthError \<or> x = UndefinedBehaviour) \<and>
         (\<exists>i<length (sv_sessions c). \<not> busy c i \<and> 0 < reads (sv_sessions c ! i))"
proof -
  have env: "env_ok rows e" using inv by (simp add: server_inv_def store_inv_def)
  show ?thesis
    using assms(1)
  proof cases
    case (Crashed i y)
    have "session_inv (beast_version e) (sv_sessions c ! i)"
      using inv Crashed(3) by (simp add: server_inv_def)
    with Crashed assms(4) session_crash_only [OF env _ Crashed(5)] show ?thesis by auto
  next
    case (ResumeCrashed j y)
    then show ?thesis
      using inv finish_effect [OF env, of "job_request j" "job_pending j" "sv_world c"]
      by (auto simp: server_inv_def jobs_ok_def)
  qed (use assms(3,4) in \<open>simp_all add: on_signal_def\<close>)
qed

lemma server_run_inv:
  assumes "(server_step e need_eof)\<^sup>*\<^sup>* c c'" and "server_inv rows e c"
  shows "server_inv rows e c' \<and>
         map_of (table rows e (sv_world c)) \<subseteq>\<^sub>m map_of (table rows e (sv_world c'))"
  using assms
proof induction
  case base
  then show ?case by simp
next
  case (step c1 c2)
  then show ?case
    using server_step_inv [OF step.hyps(2)] link_step_le [OF row_step_link] map_le_trans by blast
qed

lemma boot_inv:
  assumes "store_inv rows e w" and "\<forall>l\<in>set ls. accepts l = 1 \<and> launched l = []"
  shows "server_inv rows e (boot ls w)"
  using assms
  by (simp add: server_inv_def objects_ok_def accounted_def jobs_ok_def boot_def wait_signals_def
      sum_list_eq_0_iff)

lemma signal_outstanding: "objects_ok c \<Longrightarrow> \<not> sv_stopped c \<Longrightarrow> 0 < outstanding c"
  by (simp add: objects_ok_def outstanding_def)

section \<open>A concrete server\<close>

text \<open>One listener, one connection: accepted, dispatched, found to be plain, one request read.\<close>

definition demo_listener :: listener where
  "demo_listener = run_listener (new_listener Success Success Success Success)"

lemma demo_boot_inv: "server_inv (\<lambda>d. d) demo_env (boot [demo_listener] demo_world)"
  by (rule boot_inv) (simp_all add: demo_listener_def)

lemma connects:
  assumes c: "running c" "sv_listeners c = [l]" "accepts l = 1"
  shows "\<exists>c' l'. (server_step e need_eof)\<^sup>*\<^sup>* c c' \<and> running c' \<and> sv_listeners c' = [l'] \<and> accepts l' = 1 \<and>
           sv_sessions c' = sv_sessions c @ [new_session Plain []] \<and> sv_world c' = sv_world c \<and>
           sv_jobs c' = sv_jobs c \<and> map detecting (sv_detectors c') = map detecting (sv_detectors c) @ [0]"
proof -
  let ?d0 = "run_detector detect_session" and ?ds = "sv_detectors c"
  let ?l1 = "on_accept Success (l\<lparr>accepts := 0\<rparr>)"
  define c1 where "c1 = c\<lparr>sv_listeners := [?l1], sv_detectors := ?ds @ [?d0], sv_accepted := sv_accepted c + 1\<rparr>"
  define c2 where "c2 = c1\<lparr>sv_detectors := ?ds @ [on_run (?d0\<lparr>dispatched := 0\<rparr>)]\<rparr>"
  define d where "d = (on_run (?d0\<lparr>dispatched := 0\<rparr>))\<lparr>detecting := 0, owns_stream := False\<rparr>"
  define c3 where "c3 = c2\<lparr>sv_detectors := ?ds @ [d], sv_sessions := sv_sessions c @ [new_session Plain []]\<rparr>"
  have run: "running c1" "running c2" "running c3"
    using c(1) by (simp_all add: running_def c1_def c2_def c3_def)
  have l1: "launched ?l1 = launched l @ [?d0]" "accepts ?l1 = 1"
    by (simp_all add: on_accept_def do_accept_def Let_def)
  moreover have "server_step e need_eof c
      (c\<lparr>sv_listeners := (sv_listeners c)[0 := ?l1],
         sv_detectors := sv_detectors c @ drop (length (launched (sv_listeners c ! 0))) (launched ?l1),
         sv_accepted := sv_accepted c + (if Success = Success then 1 else 0)\<rparr>)"
    using c by (intro Accepted) simp_all
  ultimately have 1: "server_step e need_eof c c1"
    using c(2) by (simp add: c1_def)
  have "server_step e need_eof c1
      (c1\<lparr>sv_detectors := (sv_detectors c1)[length ?ds := on_run ((sv_detectors c1 ! length ?ds)\<lparr>dispatched := 0\<rparr>)]\<rparr>)"
    using run(1) by (intro Dispatched) (simp_all add: c1_def run_detector_def detect_session_def)
  then have 2: "server_step e need_eof c1 c2"
    by (simp add: c2_def c1_def)
  have "on_detect Success False ((sv_detectors c2 ! length ?ds)\<lparr>detecting := 0, det_buffer := []\<rparr>) =
      (d, Some (new_session Plain []))"
    by (simp add: c2_def d_def on_detect_def new_session_def on_run_def run_detector_def detect_session_def)
  moreover have "detecting (sv_detectors c2 ! length ?ds) = Suc 0"
    by (simp add: c2_def on_run_def run_detector_def detect_session_def)
  ultimately have "server_step e need_eof c2
      (c2\<lparr>sv_detectors := (sv_detectors c2)[length ?ds := d],
          sv_sessions := sv_sessions c2 @ (case Some (new_session Plain []) of None \<Rightarrow> [] | Some s \<Rightarrow> [s])\<rparr>)"
    using run(2) by (intro Detected [where ec = Success and result = False and buf = "[]"]) (simp_all add: c2_def)
  then have 3: "server_step e need_eof c2 c3"
    by (simp add: c3_def c2_def c1_def)
  have "(server_step e need_eof)\<^sup>*\<^sup>* c c3"
    using 1 2 3 by (blast intro: converse_rtranclp_into_rtranclp)
  then show ?thesis
    using run(3) l1(2) by (intro exI [of _ c3] exI [of _ ?l1]) (simp add: c3_def c2_def c1_def d_def)
qed

lemma demo_connected:
  "\<exists>c l. (server_step demo_env need_eof)\<^sup>*\<^sup>* (boot [demo_listener] demo_world) c \<and> running c \<and>
         sv_listeners c = [l] \<and> accepts l = 1 \<and> sv_sessions c = [new_session Plain []] \<and>
         sv_world c = demo_world \<and> sv_jobs c = [] \<and> map detecting (sv_detectors c) = [0]"
  using connects [of "boot [demo_listener] demo_world" demo_listener demo_env need_eof]
  by (simp add: demo_listener_def)

lemma demo_admitted:
  "admits (new_session Plain []) Success demo_post"
  "session_inv ver s \<Longrightarrow> 0 < reads s \<Longrightarrow> admits s Success demo_post"
  by (simp_all add: admits_read demo_post_def) (simp add: admits_def within_def run_defs)

lemma demo_served:
  "\<exists>c s. (server_step demo_env need_eof)\<^sup>*\<^sup>* (boot [demo_listener] demo_world) c \<and> running c \<and>
         sv_sessions c = [s] \<and> sv_jobs c = [] \<and> requests s = [demo_get ''x''] \<and> 0 < reads s \<and>
         db (sv_world c) ''urls.db'' = []"
proof -
  obtain c where run: "(server_step demo_env need_eof)\<^sup>*\<^sup>* (boot [demo_listener] demo_world) c"
    and c: "running c" "sv_sessions c = [new_session Plain []]" "sv_world c = demo_world" "sv_jobs c = []"
    using demo_connected [of need_eof] by blast
  obtain s w where mv: "session_move demo_env need_eof (new_session Plain [], demo_world) (s, w)"
    and s: "requests s = [demo_get ''x'']" "0 < reads s" "db w = db demo_world"
    using demo_move [of need_eof "[]"] by force
  have "server_step demo_env need_eof c (c\<lparr>sv_sessions := (sv_sessions c)[0 := s], sv_world := w\<rparr>)"
    using c mv by (intro Moved) (simp_all add: busy_def)
  with run have "(server_step demo_env need_eof)\<^sup>*\<^sup>* (boot [demo_listener] demo_world)
      (c\<lparr>sv_sessions := [s], sv_world := w\<rparr>)"
    using c(2) by simp
  then show ?thesis
    using c s by (intro exI [of _ "c\<lparr>sv_sessions := [s], sv_world := w\<rparr>"] exI [of _ s]) (simp add: running_def)
qed

lemma demo_post_stores:
  assumes "db w ''urls.db'' = []"
  shows "\<exists>w'. handle_request demo_env demo_post w = Ok w' \<and> db w' ''urls.db'' \<noteq> []"
proof -
  have "req_method demo_post = Post" "req_target demo_post = ''/post.html''"
    by (simp_all add: demo_post_def)
  moreover have "sqlite_available (sql demo_env) (\<lambda>d. d)" by simp
  ultimately obtain w' token where "handle_request demo_env demo_post w = Ok w'"
    "stores (\<lambda>d. d) ''urls.db'' token (cstr ''http://a.b'') (db w) (db w')"
    using post_available [OF demo_env_ok, of demo_post "''http://a.b''" w] demo_request_url demo_http assms
    by auto
  then show ?thesis by (auto simp: stores_def)
qed

end
