(* ===== verification/Daemon.thy ===== *)
theory Daemon
  imports Logging "HOL-Library.Word" "HOL-Library.Sublist"
begin

text \<open>
  \<^verbatim>\<open>src/daemon.cpp\<close>: turning the process into a daemon, the pid file, giving up
  privileges, resource limits. The operating system is a parameter: what a call answers, given what
  the process has done so far. The process is the list of its calls with their results, its log
  and the contents of the pid file.
\<close>

unbundle bit_operations_syntax

section \<open>The operating system\<close>

type_synonym gid = "32 word"
type_synonym uid = "32 word"

datatype syscall =
    Fork | ProcessExit int | Setsid | Umask nat | Chdir string | Sysconf_open_max | Close int
  | Open_rdwr string | Dup2 int int | Kill int int | Getpid | Unlink string
  | Setgid gid | Setgroups nat | Initgroups string gid | Setuid uid
  | Setrlimit_core "64 word" "64 word" | Setrlimit_nofile "64 word" "64 word"

record process =
  calls :: "(syscall \<times> int) list"
  logs :: "syslog_entry list"
  pid_file :: "string option"

record os =
  os_result :: "process \<Rightarrow> syscall \<Rightarrow> int"
  os_error :: "process \<Rightarrow> string"                       \<comment> \<open>\<^verbatim>\<open>strerror(errno)\<close>\<close>
  os_passwd :: "string \<Rightarrow> (uid \<times> gid) option"          \<comment> \<open>\<^verbatim>\<open>getpwnam\<close>\<close>
  os_group :: "string \<Rightarrow> gid option"                  \<comment> \<open>\<^verbatim>\<open>getgrnam\<close>\<close>
  os_can_read :: "process \<Rightarrow> bool"                    \<comment> \<open>the pid file, when it exists\<close>
  os_can_write :: "process \<Rightarrow> bool"

definition do_call :: "os \<Rightarrow> syscall \<Rightarrow> process \<Rightarrow> int \<times> process" where
  "do_call os c p = (os_result os p c, p\<lparr>calls := calls p @ [(c, os_result os p c)]\<rparr>)"

definition alert :: "string \<Rightarrow> process \<Rightarrow> process" where
  "alert msg p = p\<lparr>logs := logs p @ [(LOG_ALERT, msg)]\<rparr>"

section \<open>Numbers\<close>

definition digit :: "nat \<Rightarrow> char" where
  "digit d = char_of (48 + d)"

fun show_nat :: "nat \<Rightarrow> string" where
  "show_nat n = (if n < 10 then [digit n] else show_nat (n div 10) @ [digit (n mod 10)])"

declare show_nat.simps [simp del]

definition show_int :: "int \<Rightarrow> string" where
  "show_int i = (if i < 0 then CHR ''-'' # show_nat (nat (- i)) else show_nat (nat i))"

text \<open>
  \<^verbatim>\<open>operator>>\<close> of a stream on an \<^verbatim>\<open>int\<close>: nothing is stored when the stream ends
  before the first character that is not a space; without digits the value is 0, out of range it
  is the bound.
\<close>

definition dec_digit :: "char \<Rightarrow> bool" where
  "dec_digit c \<longleftrightarrow> CHR ''0'' \<le> c \<and> c \<le> CHR ''9''"

definition digits_value :: "string \<Rightarrow> int" where
  "digits_value ds = foldl (\<lambda>v c. v * 10 + (of_char c - 48)) 0 ds"

definition clamp_int :: "int \<Rightarrow> int" where
  "clamp_int v = max (- (2 ^ 31)) (min (2 ^ 31 - 1) v)"

definition extract_int :: "string \<Rightarrow> int option" where
  "extract_int s =
     (case dropWhile is_space s of
        [] \<Rightarrow> None
      | c # cs \<Rightarrow>
          let rest = (if c = CHR ''-'' \<or> c = CHR ''+'' then cs else c # cs);
              v = digits_value (takeWhile dec_digit rest)
          in Some (clamp_int (if c = CHR ''-'' then - v else v)))"

section \<open>Becoming a daemon\<close>

definition D_NO_CHDIR :: "32 word" where "D_NO_CHDIR = 0x1"
definition D_NO_CLOSE_FILES :: "32 word" where "D_NO_CLOSE_FILES = 0x2"
definition D_NO_REOPEN_STD_FDS :: "32 word" where "D_NO_REOPEN_STD_FDS = 0x4"
definition D_NO_UMASK0 :: "32 word" where "D_NO_UMASK0 = 0x8"
definition D_MAX_CLOSE :: int where "D_MAX_CLOSE = 8192"

lemmas daemon_flags = D_NO_CHDIR_def D_NO_CLOSE_FILES_def D_NO_REOPEN_STD_FDS_def D_NO_UMASK0_def

text \<open>
  A part of \<^verbatim>\<open>daemonise\<close> ends with \<open>Some True\<close> to go on, \<open>Some False\<close> to return false, and
  \<open>None\<close> in a process that has exited.
\<close>

definition and_then ::
    "(process \<Rightarrow> bool option \<times> process) \<Rightarrow> (process \<Rightarrow> bool option \<times> process) \<Rightarrow>
       process \<Rightarrow> bool option \<times> process" where
  "and_then f g p = (case f p of (r, p') \<Rightarrow> if r = Some True then g p' else (r, p'))"

definition fork_step :: "os \<Rightarrow> process \<Rightarrow> bool option \<times> process" where
  "fork_step os p =
     (let (r, p1) = do_call os Fork p in
      if r = -1 then (Some False, alert (''Could not fork(): '' @ os_error os p1) p1)
      else if r = 0 then (Some True, p1)
      else (None, snd (do_call os (ProcessExit 0) p1)))"

definition setsid_step :: "os \<Rightarrow> process \<Rightarrow> bool option \<times> process" where
  "setsid_step os p =
     (let (r, p1) = do_call os Setsid p in
      if r = -1 then (Some False, alert (''Could not setsid(): '' @ os_error os p1) p1)
      else (Some True, p1))"

definition umask_step :: "os \<Rightarrow> 32 word \<Rightarrow> process \<Rightarrow> bool option \<times> process" where
  "umask_step os flags p =
     (Some True, if flags AND D_NO_UMASK0 = 0 then snd (do_call os (Umask 0) p) else p)"

definition chdir_step :: "os \<Rightarrow> 32 word \<Rightarrow> process \<Rightarrow> bool option \<times> process" where
  "chdir_step os flags p =
     (if flags AND D_NO_CHDIR = 0 then
        let (r, p1) = do_call os (Chdir ''/'') p in
        if r = -1 then
          (Some False, alert (''Could not chdir('' @ [CHR 0x22] @ ''/'' @ [CHR 0x22] @ ''): '' @ os_error os p1) p1)
        else (Some True, p1)
      else (Some True, p))"

text \<open>The result of \<^verbatim>\<open>sysconf\<close> is stored in an \<^verbatim>\<open>int\<close>.\<close>

definition close_step :: "os \<Rightarrow> 32 word \<Rightarrow> process \<Rightarrow> bool option \<times> process" where
  "close_step os flags p =
     (if flags AND D_NO_CLOSE_FILES = 0 then
        let (r, p1) = do_call os Sysconf_open_max p;
            maxfd0 = sint (word_of_int r :: 32 word);
            maxfd = (if maxfd0 = -1 then D_MAX_CLOSE else maxfd0)
        in (Some True, fold (\<lambda>fd q. snd (do_call os (Close (int fd)) q)) [0..<nat maxfd] p1)
      else (Some True, p))"

definition reopen_step :: "os \<Rightarrow> 32 word \<Rightarrow> process \<Rightarrow> bool option \<times> process" where
  "reopen_step os flags p =
     (if flags AND D_NO_REOPEN_STD_FDS = 0 then
        let (_, p1) = do_call os (Close 0) p;
            (fd, p2) = do_call os (Open_rdwr ''/dev/null'') p1 in
        if fd \<noteq> 0 then (Some False, alert (''Could not open /dev/null: '' @ os_error os p2) p2)
        else
          let (r1, p3) = do_call os (Dup2 0 1) p2 in
          if r1 \<noteq> 1 then
            (Some False, alert (''Could not dup2(STDIN_FILENO, STDOUT_FILENO): '' @ os_error os p3) p3)
          else
            let (r2, p4) = do_call os (Dup2 0 2) p3 in
            if r2 \<noteq> 2 then
              (Some False, alert (''Could not dup2(STDIN_FILENO, STDERR_FILENO): '' @ os_error os p4) p4)
            else (Some True, p4)
      else (Some True, p))"

definition daemonise :: "os \<Rightarrow> 32 word \<Rightarrow> process \<Rightarrow> bool option \<times> process" where
  "daemonise os flags =
     and_then (fork_step os)
       (and_then (setsid_step os)
         (and_then (fork_step os)
           (and_then (umask_step os flags)
             (and_then (chdir_step os flags)
               (and_then (close_step os flags) (reopen_step os flags))))))"

section \<open>The pid file\<close>

definition pid_file_path :: string where
  "pid_file_path = ''/var/run/shadyurl.pid''"

text \<open>\<^verbatim>\<open>pid\<close> is not initialised: when nothing is extracted, passing it on is undefined.\<close>

definition check_pid :: "os \<Rightarrow> process \<Rightarrow> (bool \<times> process) res" where
  "check_pid os p =
     (case pid_file p of
        None \<Rightarrow> Ok (True, p)
      | Some text \<Rightarrow>
          if \<not> os_can_read os p then Ok (True, p)
          else
            case extract_int text of
              None \<Rightarrow> UB
            | Some pid \<Rightarrow> let (r, p1) = do_call os (Kill pid 0) p in Ok (r \<noteq> 0, p1))"

definition write_pid :: "os \<Rightarrow> process \<Rightarrow> bool \<times> process" where
  "write_pid os p =
     (let (pid, p1) = do_call os Getpid p in
      if \<not> os_can_write os p1 then (False, p1)
      else (True, p1\<lparr>pid_file := Some (show_int pid)\<rparr>))"

definition remove_pid :: "os \<Rightarrow> process \<Rightarrow> process" where
  "remove_pid os p =
     (let (r, p1) = do_call os (Unlink pid_file_path) p in
      if r = 0 then p1\<lparr>pid_file := None\<rparr> else p1)"

section \<open>Privileges\<close>

text \<open>The identities \<^verbatim>\<open>drop_privs\<close> finds first, or the message it stops with.\<close>

definition find_ids :: "os \<Rightarrow> string \<Rightarrow> string \<Rightarrow> process \<Rightarrow> string + (uid \<times> gid)" where
  "find_ids os user grp p =
     (let from_group = (\<lambda>uid gid.
            if grp \<noteq> [] then
              (case os_group os (cstr grp) of
                 None \<Rightarrow> Inl (''Could not find group '' @ cstr grp @ '': '' @ os_error os p)
               | Some g \<Rightarrow> Inr (uid, g))
            else Inr (uid, gid)) in
      if user \<noteq> [] then
        (case os_passwd os (cstr user) of
           None \<Rightarrow> Inl (''Could not find user: '' @ cstr user)
         | Some (pw_uid, pw_gid) \<Rightarrow> from_group pw_uid (if grp = [] then pw_gid else -1))
      else from_group (-1) (-1))"

definition set_gid :: "os \<Rightarrow> string \<Rightarrow> gid \<Rightarrow> process \<Rightarrow> bool \<times> process" where
  "set_gid os user gid p =
     (if gid = -1 then (True, p)
      else
        let (r1, p1) = do_call os (Setgid gid) p in
        if r1 = -1 then (False, alert (''Could not setgid('' @ show_int (sint gid) @ ''): '' @ os_error os p1) p1)
        else
          let (r2, p2) = do_call os (Setgroups 0) p1 in
          if r2 = -1 then (False, alert (''Could not setgroups(): '' @ os_error os p2) p2)
          else if user = [] then (True, p2)
          else
            let (r3, p3) = do_call os (Initgroups (cstr user) gid) p2 in
            if r3 = -1 then
              (False, alert (''Could not initgroups('' @ cstr user @ '', '' @ show_int (sint gid) @ ''): '' @
                 os_error os p3) p3)
            else (True, p3))"

definition set_uid :: "os \<Rightarrow> uid \<Rightarrow> process \<Rightarrow> bool \<times> process" where
  "set_uid os uid p =
     (if uid = -1 then (True, p)
      else
        let (r, p1) = do_call os (Setuid uid) p in
        if r = -1 then (False, alert (''Could not setuid('' @ show_int (sint uid) @ ''): '' @ os_error os p1) p1)
        else (True, p1))"

definition drop_privs :: "os \<Rightarrow> string \<Rightarrow> string \<Rightarrow> process \<Rightarrow> bool \<times> process" where
  "drop_privs os user grp p =
     (case find_ids os user grp p of
        Inl msg \<Rightarrow> (False, alert msg p)
      | Inr (uid, gid) \<Rightarrow>
          let (ok, p1) = set_gid os user gid p in
          if \<not> ok then (False, p1) else set_uid os uid p1)"

section \<open>Resource limits\<close>

definition RLIM_INFINITY :: "64 word" where
  "RLIM_INFINITY = -1"

text \<open>The limit of a resource, and the function, whose last statement is \<^verbatim>\<open>return 0\<close>.\<close>

definition limit_step ::
    "os \<Rightarrow> (64 word \<Rightarrow> 64 word \<Rightarrow> syscall) \<Rightarrow> 64 word \<Rightarrow> string \<Rightarrow> process \<Rightarrow> bool \<times> process" where
  "limit_step os setrlimit lim what p =
     (if 0 \<le> lim then
        let v = (if RLIM_INFINITY \<le> lim then RLIM_INFINITY else lim);
            (r, p1) = do_call os (setrlimit v v) p in
        if r \<noteq> 0 then (False, alert (''Couldn'' @ [CHR 0x27] @ ''t set max '' @ what @ '': '' @ os_error os p1) p1)
        else (True, p1)
      else (True, p))"

definition set_rlimit :: "os \<Rightarrow> process \<Rightarrow> bool \<times> process" where
  "set_rlimit os p =
     (let rlim_core = RLIM_INFINITY; rlim_nofile = RLIM_INFINITY;
          (ok1, p1) = limit_step os Setrlimit_core rlim_core ''core file size'' p in
      if \<not> ok1 then (False, p1)
      else
        let (ok2, p2) = limit_step os Setrlimit_nofile rlim_nofile ''file descriptors'' p1 in
        if \<not> ok2 then (False, p2) else (False, p2))"

section \<open>What the parts do\<close>

lemma do_call_simps [simp]:
  "fst (do_call os c p) = os_result os p c"
  "calls (snd (do_call os c p)) = calls p @ [(c, os_result os p c)]"
  "logs (snd (do_call os c p)) = logs p" "pid_file (snd (do_call os c p)) = pid_file p"
  by (simp_all add: do_call_def)

lemma alert_simps [simp]:
  "calls (alert m p) = calls p" "logs (alert m p) = logs p @ [(LOG_ALERT, m)]" "pid_file (alert m p) = pid_file p"
  by (simp_all add: alert_def)

text \<open>
  The contract of a part: the calls it adds satisfy \<open>P\<close> when it goes on and it logs nothing; it
  logs one alert when it fails; a process that exits does so right after a fork whose result is the
  child's number.
\<close>

definition exits :: "(syscall \<times> int) list \<Rightarrow> bool" where
  "exits as \<longleftrightarrow> (\<exists>bs pid x. as = bs @ [(Fork, pid), (ProcessExit 0, x)] \<and> pid \<noteq> 0 \<and> pid \<noteq> -1)"

fun ends_ok :: "((syscall \<times> int) list \<Rightarrow> bool) \<Rightarrow> process \<Rightarrow> bool option \<Rightarrow> process \<Rightarrow>
    (syscall \<times> int) list \<Rightarrow> bool" where
  "ends_ok P p (Some True) p' as \<longleftrightarrow> P as \<and> logs p' = logs p"
| "ends_ok P p (Some False) p' as \<longleftrightarrow> (\<exists>m. logs p' = logs p @ [(LOG_ALERT, m)])"
| "ends_ok P p None p' as \<longleftrightarrow> exits as \<and> logs p' = logs p"

definition part :: "(process \<Rightarrow> bool option \<times> process) \<Rightarrow> ((syscall \<times> int) list \<Rightarrow> bool) \<Rightarrow> bool" where
  "part f P \<longleftrightarrow>
     (\<forall>p r p'. f p = (r, p') \<longrightarrow>
        (\<exists>as. calls p' = calls p @ as \<and> pid_file p' = pid_file p \<and> ends_ok P p r p' as))"

lemma partI:
  "(\<And>p r p'. f p = (r, p') \<Longrightarrow>
      \<exists>as. calls p' = calls p @ as \<and> pid_file p' = pid_file p \<and> ends_ok P p r p' as) \<Longrightarrow> part f P"
  unfolding part_def by blast

lemma partE:
  assumes "part f P" and "f p = (r, p')"
  obtains as where "calls p' = calls p @ as" "pid_file p' = pid_file p" "ends_ok P p r p' as"
  using assms unfolding part_def by blast

lemma exits_append: "exits bs \<Longrightarrow> exits (as @ bs)"
  unfolding exits_def by (metis append.assoc)

lemma outcome_cases: "r = Some True \<or> r = Some False \<or> r = None"
  by (cases r) auto

lemma part_and_then:
  assumes f: "part f P" and g: "part g Q"
  shows "part (and_then f g) (\<lambda>as. \<exists>bs cs. as = bs @ cs \<and> P bs \<and> Q cs)"
proof (rule partI)
  fix p r p'
  assume run: "and_then f g p = (r, p')"
  obtain r1 p1 where 1: "f p = (r1, p1)" by fastforce
  obtain as where as: "calls p1 = calls p @ as" "pid_file p1 = pid_file p" "ends_ok P p r1 p1 as"
    using f 1 by (rule partE)
  show "\<exists>as. calls p' = calls p @ as \<and> pid_file p' = pid_file p \<and>
             ends_ok (\<lambda>as. \<exists>bs cs. as = bs @ cs \<and> P bs \<and> Q cs) p r p' as"
  proof (cases "r1 = Some True")
    case False
    with run 1 have "r1 = r" "p1 = p'" by (simp_all add: and_then_def)
    with as False outcome_cases [of r1] show ?thesis by (intro exI [of _ as]) auto
  next
    case True
    with run 1 have "g p1 = (r, p')" by (simp add: and_then_def)
    with g obtain bs where bs: "calls p' = calls p1 @ bs" "pid_file p' = pid_file p1" "ends_ok Q p1 r p' bs"
      by (rule partE)
    have "ends_ok (\<lambda>as. \<exists>bs cs. as = bs @ cs \<and> P bs \<and> Q cs) p r p' (as @ bs)"
      using outcome_cases [of r] as(3) bs(3) True by (auto simp: exits_append) blast
    with as bs show ?thesis by (intro exI [of _ "as @ bs"]) simp
  qed
qed

lemma part_mono:
  assumes f: "part f P" and PQ: "\<And>as. P as \<Longrightarrow> Q as"
  shows "part f Q"
proof (rule partI)
  fix p r p'
  assume "f p = (r, p')"
  with f obtain as where as: "calls p' = calls p @ as" "pid_file p' = pid_file p" "ends_ok P p r p' as"
    by (rule partE)
  then have "ends_ok Q p r p' as"
    using outcome_cases [of r] PQ by auto
  with as show "\<exists>as. calls p' = calls p @ as \<and> pid_file p' = pid_file p \<and> ends_ok Q p r p' as"
    by blast
qed

lemma fork_part: "part (fork_step os) (\<lambda>as. as = [(Fork, 0)])"
  by (rule partI) (auto simp: exits_def fork_step_def do_call_def Let_def alert_def split: if_splits)

lemma setsid_part: "part (setsid_step os) (\<lambda>as. \<exists>sid. as = [(Setsid, sid)] \<and> sid \<noteq> -1)"
  by (rule partI) (auto simp: setsid_step_def do_call_def Let_def alert_def split: if_splits)

lemma umask_part:
  "part (umask_step os flags) (\<lambda>as. map fst as = (if flags AND D_NO_UMASK0 = 0 then [Umask 0] else []))"
  by (rule partI) (auto simp: umask_step_def do_call_def split: if_splits)

lemma chdir_part:
  "part (chdir_step os flags) (\<lambda>as. map fst as = (if flags AND D_NO_CHDIR = 0 then [Chdir ''/''] else []) \<and>
                                   (\<forall>a\<in>set as. snd a \<noteq> -1))"
  by (rule partI) (auto simp: chdir_step_def do_call_def Let_def alert_def split: if_splits)

lemma close_loop:
  "\<exists>as. calls (fold (\<lambda>fd q. snd (do_call os (Close (int fd)) q)) fds p) = calls p @ as \<and>
        map fst as = map (\<lambda>fd. Close (int fd)) fds \<and>
        logs (fold (\<lambda>fd q. snd (do_call os (Close (int fd)) q)) fds p) = logs p \<and>
        pid_file (fold (\<lambda>fd q. snd (do_call os (Close (int fd)) q)) fds p) = pid_file p"
proof (induction fds arbitrary: p)
  case (Cons fd fds)
  let ?q = "snd (do_call os (Close (int fd)) p)"
  obtain as where "calls (fold (\<lambda>fd q. snd (do_call os (Close (int fd)) q)) fds ?q) = calls ?q @ as"
    "map fst as = map (\<lambda>fd. Close (int fd)) fds"
    using Cons.IH [of ?q] by blast
  then show ?case
    using Cons.IH [of ?q] by (intro exI [of _ "(Close (int fd), os_result os p (Close (int fd))) # as"]) simp
qed simp

definition close_calls :: "32 word \<Rightarrow> syscall list \<Rightarrow> bool" where
  "close_calls flags cs \<longleftrightarrow>
     (if flags AND D_NO_CLOSE_FILES = 0 then
        \<exists>n. cs = Sysconf_open_max # map (\<lambda>fd. Close (int fd)) [0..<n]
      else cs = [])"

lemma close_part: "part (close_step os flags) (\<lambda>as. close_calls flags (map fst as))"
proof (rule partI)
  fix p r p'
  assume run: "close_step os flags p = (r, p')"
  show "\<exists>as. calls p' = calls p @ as \<and> pid_file p' = pid_file p \<and>
             ends_ok (\<lambda>as. close_calls flags (map fst as)) p r p' as"
  proof (cases "flags AND D_NO_CLOSE_FILES = 0")
    case False
    then have "r = Some True" "p' = p" using run by (simp_all add: close_step_def)
    with False show ?thesis by (simp add: close_calls_def)
  next
    case True
    obtain fds n where r: "r = Some True" and fds: "fds = [0..<n]"
      and p': "p' = fold (\<lambda>fd q. snd (do_call os (Close (int fd)) q)) fds (snd (do_call os Sysconf_open_max p))"
      using run True by (auto simp: close_step_def Let_def do_call_def)
    obtain as where "calls p' = calls (snd (do_call os Sysconf_open_max p)) @ as"
      "map fst as = map (\<lambda>fd. Close (int fd)) fds" "logs p' = logs p" "pid_file p' = pid_file p"
      using close_loop [of os fds "snd (do_call os Sysconf_open_max p)"] unfolding p' by auto
    then show ?thesis
      using r True fds
      by (intro exI [of _ "(Sysconf_open_max, os_result os p Sysconf_open_max) # as"]) (auto simp: close_calls_def)
  qed
qed

definition reopen_calls :: "32 word \<Rightarrow> (syscall \<times> int) list \<Rightarrow> bool" where
  "reopen_calls flags as \<longleftrightarrow>
     (if flags AND D_NO_REOPEN_STD_FDS = 0 then
        \<exists>x. as = [(Close 0, x), (Open_rdwr ''/dev/null'', 0), (Dup2 0 1, 1), (Dup2 0 2, 2)]
      else as = [])"

lemma reopen_part: "part (reopen_step os flags) (reopen_calls flags)"
  by (rule partI)
     (auto simp: reopen_step_def reopen_calls_def do_call_def Let_def alert_def split: if_splits)

definition daemon_calls :: "32 word \<Rightarrow> (syscall \<times> int) list \<Rightarrow> bool" where
  "daemon_calls flags as \<longleftrightarrow>
     (\<exists>sid us ds cs rs.
        as = [(Fork, 0), (Setsid, sid), (Fork, 0)] @ us @ ds @ cs @ rs \<and> sid \<noteq> -1 \<and>
        map fst us = (if flags AND D_NO_UMASK0 = 0 then [Umask 0] else []) \<and>
        map fst ds = (if flags AND D_NO_CHDIR = 0 then [Chdir ''/''] else []) \<and> (\<forall>a\<in>set ds. snd a \<noteq> -1) \<and>
        close_calls flags (map fst cs) \<and> reopen_calls flags rs)"

lemma daemonise_part: "part (daemonise os flags) (daemon_calls flags)"
proof -
  note parts = part_and_then [OF fork_part part_and_then [OF setsid_part part_and_then [OF fork_part
    part_and_then [OF umask_part part_and_then [OF chdir_part part_and_then [OF close_part reopen_part]]]]]]
  show ?thesis
    unfolding daemonise_def
  proof (rule part_mono [OF parts], elim exE conjE)
    fix as b1 c1 b2 c2 b3 c3 us c4 ds c5 cs rs and sid :: int
    assume "as = b1 @ c1" "b1 = [(Fork, 0)]" "c1 = b2 @ c2" "b2 = [(Setsid, sid)]" "c2 = b3 @ c3"
      "b3 = [(Fork, 0)]" "c3 = us @ c4" "c4 = ds @ c5" "c5 = cs @ rs"
    then have "as = [(Fork, 0), (Setsid, sid), (Fork, 0)] @ us @ ds @ cs @ rs" by simp
    moreover assume "sid \<noteq> -1" "map fst us = (if flags AND D_NO_UMASK0 = 0 then [Umask 0] else [])"
      "map fst ds = (if flags AND D_NO_CHDIR = 0 then [Chdir ''/''] else [])" "\<forall>a\<in>set ds. snd a \<noteq> -1"
      "close_calls flags (map fst cs)" "reopen_calls flags rs"
    ultimately show "daemon_calls flags as" unfolding daemon_calls_def by blast
  qed
qed

section \<open>Numbers in the pid file\<close>

lemma digits_check:
  "list_all (\<lambda>d. of_char (digit d) = int (48 + d) \<and> dec_digit (digit d) \<and> \<not> is_space (digit d) \<and>
                 digit d \<noteq> CHR ''-'' \<and> digit d \<noteq> CHR ''+'') [0, 1, 2, 3, 4, 5, 6, 7, 8, 9]"
  by code_simp

lemma digit_facts:
  assumes "d < 10"
  shows "of_char (digit d) = int (48 + d)" "dec_digit (digit d)" "\<not> is_space (digit d)"
    "digit d \<noteq> CHR ''-''" "digit d \<noteq> CHR ''+''"
proof -
  have "d \<in> set [0, 1, 2, 3, 4, 5, 6, 7, 8, 9]" using assms by auto
  then show "of_char (digit d) = int (48 + d)" "dec_digit (digit d)" "\<not> is_space (digit d)"
    "digit d \<noteq> CHR ''-''" "digit d \<noteq> CHR ''+''"
    using digits_check unfolding list_all_iff by blast+
qed

lemma digits_value_snoc: "digits_value (ds @ [c]) = digits_value ds * 10 + (of_char c - 48)"
  by (simp add: digits_value_def)

lemma show_nat_props:
  "digits_value (show_nat n) = int n \<and> show_nat n \<noteq> [] \<and> (\<forall>c\<in>set (show_nat n). \<exists>d<10. c = digit d)"
proof (induction n rule: show_nat.induct)
  case (1 n)
  show ?case
  proof (cases "n < 10")
    case True
    then show ?thesis
      by (auto simp: show_nat.simps [of n] digits_value_def digit_facts)
  next
    case False
    have "digits_value (show_nat n) = int (n div 10) * 10 + int (n mod 10)"
      using 1 [OF False] by (simp add: show_nat.simps [of n] False digits_value_snoc digit_facts)
    also have "\<dots> = int n"
      by (metis div_mult_mod_eq of_nat_add of_nat_mult of_nat_numeral)
    finally show ?thesis
      using 1 [OF False] by (auto simp: show_nat.simps [of n] False intro: exI [of _ "n mod 10"])
  qed
qed

lemma show_nat_digits: "c \<in> set (show_nat n) \<Longrightarrow> dec_digit c \<and> \<not> is_space c \<and> c \<noteq> CHR ''-'' \<and> c \<noteq> CHR ''+''"
  using show_nat_props [of n] digit_facts by metis

lemma extract_show_int:
  assumes "- (2 ^ 31) \<le> i" and "i < 2 ^ 31"
  shows "extract_int (show_int i) = Some i"
proof -
  have take: "takeWhile dec_digit ds = ds" if "\<forall>c\<in>set ds. dec_digit c" for ds
    using that by (simp add: takeWhile_eq_all_conv)
  have all: "\<forall>c\<in>set (show_nat n). dec_digit c" for n
    using show_nat_digits by blast
  obtain c cs where n: "show_nat (nat i) = c # cs"
    using show_nat_props [of "nat i"] by (cases "show_nat (nat i)") auto
  have "clamp_int i = i"
    using assms by (simp add: clamp_int_def)
  moreover have "\<not> is_space CHR ''-''" by (simp add: is_space_def)
  ultimately show ?thesis
    using all [of "nat i"] all [of "nat (- i)"] show_nat_digits [of c "nat i"] n
      show_nat_props [of "nat i"] show_nat_props [of "nat (- i)"]
    by (cases "i < 0") (simp_all add: show_int_def extract_int_def Let_def take)
qed

section \<open>Giving up privileges\<close>

definition privs_calls :: "string \<Rightarrow> uid \<Rightarrow> gid \<Rightarrow> syscall list" where
  "privs_calls user uid gid =
     (if gid = -1 then []
      else [Setgid gid, Setgroups 0] @ (if user = [] then [] else [Initgroups (cstr user) gid])) @
     (if uid = -1 then [] else [Setuid uid])"

text \<open>Calls made in the order of a plan: all of it, or up to the first that fails.\<close>

definition follows :: "syscall list \<Rightarrow> bool \<Rightarrow> process \<Rightarrow> process \<Rightarrow> bool" where
  "follows plan ok p p' \<longleftrightarrow>
     (\<exists>as. calls p' = calls p @ as \<and> prefix (map fst as) plan \<and>
        (if ok then map fst as = plan \<and> (\<forall>a\<in>set as. snd a \<noteq> -1) \<and> logs p' = logs p
         else as \<noteq> [] \<and> snd (last as) = -1 \<and> (\<forall>a\<in>set (butlast as). snd a \<noteq> -1) \<and>
              (\<exists>m. logs p' = logs p @ [(LOG_ALERT, m)])))"

lemma follows_then:
  assumes "follows plan1 True p p1" and "follows plan2 ok p1 p2"
  shows "follows (plan1 @ plan2) ok p p2"
proof -
  obtain as bs where "calls p1 = calls p @ as" "map fst as = plan1" "\<forall>a\<in>set as. snd a \<noteq> -1" "logs p1 = logs p"
    and "calls p2 = calls p1 @ bs" "prefix (map fst bs) plan2"
    and "if ok then map fst bs = plan2 \<and> (\<forall>a\<in>set bs. snd a \<noteq> -1) \<and> logs p2 = logs p1
         else bs \<noteq> [] \<and> snd (last bs) = -1 \<and> (\<forall>a\<in>set (butlast bs). snd a \<noteq> -1) \<and>
              (\<exists>m. logs p2 = logs p1 @ [(LOG_ALERT, m)])"
    using assms unfolding follows_def by auto
  then show ?thesis
    unfolding follows_def by (intro exI [of _ "as @ bs"]) (cases ok, auto simp: butlast_append)
qed

lemma follows_stop: "follows plan1 False p p1 \<Longrightarrow> follows (plan1 @ plan2) False p p1"
  unfolding follows_def by (auto intro: prefix_prefix)

lemma set_gid_follows:
  assumes "set_gid os user gid p = (ok, p')"
  shows "follows (if gid = -1 then []
                  else [Setgid gid, Setgroups 0] @ (if user = [] then [] else [Initgroups (cstr user) gid])) ok p p'"
  using assms
  by (auto simp: set_gid_def follows_def do_call_def alert_def Let_def split: if_splits)

lemma set_uid_follows:
  assumes "set_uid os uid p = (ok, p')"
  shows "follows (if uid = -1 then [] else [Setuid uid]) ok p p'"
  using assms
  by (auto simp: set_uid_def follows_def do_call_def alert_def Let_def split: if_splits)

lemma drop_privs_follows:
  assumes "drop_privs os user grp p = (ok, p')" and "find_ids os user grp p = Inr (uid, gid)"
  shows "follows (privs_calls user uid gid) ok p p'"
proof -
  obtain ok1 p1 where 1: "set_gid os user gid p = (ok1, p1)" by fastforce
  note g = set_gid_follows [OF 1]
  show ?thesis
  proof (cases ok1)
    case False
    then have f: "ok1 = False" by simp
    with assms 1 have "ok = False" "p' = p1" by (simp_all add: drop_privs_def)
    with follows_stop [OF g [unfolded f]] show ?thesis
      unfolding privs_calls_def by (simp only:)
  next
    case True
    then have t: "ok1 = True" by simp
    with assms 1 have "set_uid os uid p1 = (ok, p')" by (simp add: drop_privs_def)
    from follows_then [OF g [unfolded t] set_uid_follows [OF this]] show ?thesis
      unfolding privs_calls_def .
  qed
qed

section \<open>A concrete system\<close>

definition demo_os :: os where
  "demo_os =
     \<lparr>os_result = (\<lambda>p c. case c of Dup2 a b \<Rightarrow> b | Getpid \<Rightarrow> 42 | Setsid \<Rightarrow> 7 | _ \<Rightarrow> 0),
      os_error = (\<lambda>p. ''error''), os_passwd = (\<lambda>n. if n = ''www'' then Some (33, 34) else None),
      os_group = (\<lambda>n. None), os_can_read = (\<lambda>p. True), os_can_write = (\<lambda>p. True)\<rparr>"

definition demo_process :: process where
  "demo_process = \<lparr>calls = [], logs = [], pid_file = None\<rparr>"

lemmas demo_defs = demo_os_def demo_process_def do_call_def

section \<open>Properties\<close>

text \<open>
  C26: The steps of becoming a daemon, for every operating system and every flag: the process that
  goes on is the child of both forks, in a session of its own in between, with the mask cleared,
  the directory changed, the files closed and the standard streams on \<^verbatim>\<open>/dev/null\<close> as the
  flags say, in this order; a failure logs exactly one alert; a parent exits right after its fork.
\<close>

theorem daemonise_steps:
  assumes "daemonise os flags p = (r, p')"
  shows "\<exists>as. calls p' = calls p @ as \<and> pid_file p' = pid_file p \<and> ends_ok (daemon_calls flags) p r p' as"
  using daemonise_part assms by (rule partE) blast

theorem daemonise_steps_witness:
  "\<exists>p' as. daemonise demo_os D_NO_CLOSE_FILES demo_process = (Some True, p') \<and> calls p' = as \<and>
           daemon_calls D_NO_CLOSE_FILES as \<and> length as = 9"
proof -
  have "fst (daemonise demo_os D_NO_CLOSE_FILES demo_process) = Some True"
    and len: "length (calls (snd (daemonise demo_os D_NO_CLOSE_FILES demo_process))) = 9"
    by code_simp+
  then obtain p' where p': "daemonise demo_os D_NO_CLOSE_FILES demo_process = (Some True, p')"
    by (metis prod.collapse)
  from daemonise_steps [OF this] p' len show ?thesis by (auto simp: demo_process_def)
qed

text \<open>
  C23: Privileges are given up in the right order: with a configured user that exists, success
  means that the group, the supplementary groups and last the user were set, each call
  successfully and with the identities of the password and group files, and nothing else was called.
\<close>

theorem drop_privs_drops:
  assumes "drop_privs os user grp p = (True, p')" and "user \<noteq> []"
    and "os_passwd os (cstr user) = Some (uid, pw_gid)" and "uid \<noteq> -1"
    and "(if grp = [] then Some pw_gid else os_group os (cstr grp)) = Some gid" and "gid \<noteq> -1"
  shows "\<exists>as. calls p' = calls p @ as \<and>
              map fst as = [Setgid gid, Setgroups 0, Initgroups (cstr user) gid, Setuid uid] \<and>
              (\<forall>a\<in>set as. snd a \<noteq> -1)"
proof -
  have "find_ids os user grp p = Inr (uid, gid)"
    using assms(2,3,5) by (auto simp: find_ids_def Let_def split: if_splits)
  from drop_privs_follows [OF assms(1) this] assms(2,4,6) show ?thesis
    by (auto simp: follows_def privs_calls_def)
qed

theorem drop_privs_drops_witness:
  "\<exists>p' as. drop_privs demo_os ''www'' [] demo_process = (True, p') \<and> calls p' = as \<and>
           map fst as = [Setgid 34, Setgroups 0, Initgroups ''www'' 34, Setuid 33]"
proof -
  have "fst (drop_privs demo_os ''www'' [] demo_process) = True"
    by code_simp
  then obtain p' where p': "drop_privs demo_os ''www'' [] demo_process = (True, p')"
    by (metis prod.collapse)
  have "cstr ''www'' = ''www''" by (simp add: cstr_def NUL_def)
  then have "os_passwd demo_os (cstr ''www'') = Some (33, 34)" by (simp add: demo_os_def)
  from drop_privs_drops [OF p' _ this, of 34] p' \<open>cstr ''www'' = ''www''\<close> show ?thesis
    by (auto simp: demo_process_def)
qed

text \<open>
  On every path of \<open>drop_privs\<close> the calls made are an initial part of one plan, groups before
  user; a failing call is the last one made and is logged; an unknown user or group stops the
  function before any call.
\<close>

theorem drop_privs_plan:
  assumes "drop_privs os user grp p = (ok, p')"
  shows "case find_ids os user grp p of
           Inl msg \<Rightarrow> \<not> ok \<and> calls p' = calls p \<and> logs p' = logs p @ [(LOG_ALERT, msg)]
         | Inr (uid, gid) \<Rightarrow> follows (privs_calls user uid gid) ok p p'"
proof (cases "find_ids os user grp p")
  case (Inl msg)
  with assms show ?thesis by (auto simp: drop_privs_def)
next
  case (Inr ids)
  with drop_privs_follows [OF assms] show ?thesis by (cases ids) simp
qed

theorem drop_privs_plan_witness:
  "\<exists>p'. drop_privs demo_os ''nobody'' [] demo_process = (False, p') \<and> calls p' = [] \<and> length (logs p') = 1"
proof -
  obtain ok p' where p': "drop_privs demo_os ''nobody'' [] demo_process = (ok, p')" by fastforce
  have "\<exists>msg. find_ids demo_os ''nobody'' [] demo_process = Inl msg"
    by (simp add: find_ids_def demo_os_def cstr_def NUL_def)
  with drop_privs_plan [OF p'] p' show ?thesis by (auto simp: demo_process_def)
qed

text \<open>
  C40: The pid file works: after \<open>write_pid\<close>, \<open>check_pid\<close> reads back exactly the number of this
  process, asks for it with a null signal, and answers that no process runs just when that fails.
\<close>

theorem pid_file_roundtrip:
  assumes "write_pid os p = (True, p1)" and "os_can_read os p1"
    and "- (2 ^ 31) \<le> os_result os p Getpid" and "os_result os p Getpid < 2 ^ 31"
  shows "\<exists>p2. check_pid os p1 = Ok (os_result os p1 (Kill (os_result os p Getpid) 0) \<noteq> 0, p2) \<and>
              calls p2 = calls p1 @ [(Kill (os_result os p Getpid) 0, os_result os p1 (Kill (os_result os p Getpid) 0))]"
proof -
  have "pid_file p1 = Some (show_int (os_result os p Getpid))"
    using assms(1) by (auto simp: write_pid_def do_call_def split: if_splits)
  then show ?thesis
    using assms(2) extract_show_int [OF assms(3,4)] by (simp add: check_pid_def do_call_def Let_def)
qed

theorem pid_file_roundtrip_witness:
  "\<exists>p1 p2. write_pid demo_os demo_process = (True, p1) \<and> check_pid demo_os p1 = Ok (False, p2) \<and>
           map fst (calls p2) = [Getpid, Kill 42 0]"
proof -
  have g: "os_result demo_os demo_process Getpid = 42" by (simp add: demo_os_def)
  obtain p1 where p1: "write_pid demo_os demo_process = (True, p1)" "calls p1 = [(Getpid, 42)]"
    by (simp add: write_pid_def demo_defs)
  have "os_can_read demo_os p1" "os_result demo_os p1 (Kill 42 0) = 0" by (simp_all add: demo_os_def)
  with pid_file_roundtrip [OF p1(1), unfolded g] p1 show ?thesis by auto
qed

text \<open>
  \<open>check_pid\<close> is undefined in exactly one case: a pid file that can be read and holds nothing
  but spaces, when the number is used without having been set.
\<close>

theorem check_pid_undefined:
  "check_pid os p = UB \<longleftrightarrow>
     (\<exists>text. pid_file p = Some text \<and> os_can_read os p \<and> list_all is_space text)"
proof -
  have "extract_int s = None \<longleftrightarrow> dropWhile is_space s = []" for s
    unfolding extract_int_def by (cases "dropWhile is_space s") (simp_all only: list.simps Let_def option.simps simp_thms)
  then have none: "list_all is_space s \<longleftrightarrow> extract_int s = None" for s
    by (simp only: dropWhile_eq_Nil_conv list_all_iff)
  show ?thesis
    unfolding none by (auto simp: check_pid_def do_call_def Let_def split: option.split)
qed

text \<open>
  \<open>set_rlimit\<close>, which the program does not call, reports failure always, also when it has
  raised both limits to the maximum.
\<close>

theorem set_rlimit_never_true:
  "\<not> fst (set_rlimit os p) \<and>
   map fst (calls (snd (set_rlimit os p))) =
     map fst (calls p) @ Setrlimit_core (-1) (-1) #
       (if os_result os p (Setrlimit_core (-1) (-1)) = 0 then [Setrlimit_nofile (-1) (-1)] else [])"
  by (auto simp: set_rlimit_def limit_step_def RLIM_INFINITY_def do_call_def alert_def Let_def)

end
