(* ===== verification/Certificate.thy ===== *)
theory Certificate
  imports Server_State Logging
begin

text \<open>
  \<^verbatim>\<open>src/certificate.cpp\<close>: loading the certificate chain, the private key and the DH
  parameters into the SSL context. Each call of Boost.Asio either succeeds or throws: the
  parameter \<open>ssl_lib\<close> gives for a file the \<^verbatim>\<open>what()\<close> of the exception, or \<open>None\<close>.
\<close>

datatype ssl_option = DefaultWorkarounds | NoSslv2 | SingleDhUse

record ssl_ctx =
  ctx_options :: "ssl_option list"
  ctx_chain :: "string option"
  ctx_key :: "string option"
  ctx_dh :: "string option"

record ssl_lib =
  use_certificate_chain_file :: "string \<Rightarrow> string option"
  use_private_key_file :: "string \<Rightarrow> string option"
  use_tmp_dh_file :: "string \<Rightarrow> string option"

definition load_server_certificate ::
    "ssl_lib \<Rightarrow> server_state \<Rightarrow> ssl_ctx \<Rightarrow> bool \<times> syslog_entry list \<times> ssl_ctx" where
  "load_server_certificate lib state ctx =
     (let ctx1 = ctx\<lparr>ctx_options := ctx_options ctx @ [DefaultWorkarounds, NoSslv2, SingleDhUse]\<rparr>;
          cert = cstr (get_config_cert_file state);
          key = cstr (get_config_key_file state);
          dh = cstr (get_config_dh_file state) in
      case use_certificate_chain_file lib cert of
        Some what \<Rightarrow> (False, [(LOG_ALERT, ''Could not load certificate file: '' @ cstr what)], ctx1)
      | None \<Rightarrow>
          let ctx2 = ctx1\<lparr>ctx_chain := Some cert\<rparr> in
          case use_private_key_file lib key of
            Some what \<Rightarrow> (False, [(LOG_ALERT, ''Could not load private key file: '' @ cstr what)], ctx2)
          | None \<Rightarrow>
              let ctx3 = ctx2\<lparr>ctx_key := Some key\<rparr> in
              case use_tmp_dh_file lib dh of
                Some what \<Rightarrow> (False, [(LOG_ALERT, ''Could not load DH parameter file: '' @ cstr what)], ctx3)
              | None \<Rightarrow> (True, [], ctx3\<lparr>ctx_dh := Some dh\<rparr>))"

definition new_ctx :: ssl_ctx where
  "new_ctx = \<lparr>ctx_options = [], ctx_chain = None, ctx_key = None, ctx_dh = None\<rparr>"

section \<open>Properties\<close>

text \<open>
  Loading succeeds exactly when all three files load, and then a fresh context holds all
  three and forbids SSLv2; otherwise exactly one alert is logged and the context is missing at
  least one of the files.
\<close>

theorem load_server_certificate_complete:
  "case load_server_certificate lib state new_ctx of (ok, log, ctx) \<Rightarrow>
     (ok \<longleftrightarrow> ctx_chain ctx \<noteq> None \<and> ctx_key ctx \<noteq> None \<and> ctx_dh ctx \<noteq> None) \<and>
     (ok \<longleftrightarrow> use_certificate_chain_file lib (cstr (get_config_cert_file state)) = None \<and>
            use_private_key_file lib (cstr (get_config_key_file state)) = None \<and>
            use_tmp_dh_file lib (cstr (get_config_dh_file state)) = None) \<and>
     length log = (if ok then 0 else 1) \<and> NoSslv2 \<in> set (ctx_options ctx)"
  by (auto simp: load_server_certificate_def new_ctx_def Let_def split: option.split)

end
