(* ===== verification/Main_Prog.thy ===== *)
theory Main_Prog
  imports Daemon Acceptor Certificate
begin

text \<open>
  \<^verbatim>\<open>src/main.cpp\<close>: the start of the server, from the pid file to the event loop. The
  program is a chain of stages, each of which goes on with a value or ends the process. The
  libraries are parameters of the environment, and so is what the threads that run the event loop
  come to: \<open>Program\<close> ties that to the runs of the server.
\<close>

section \<open>Environment and state\<close>

datatype outcome =
    Returned nat          \<comment> \<open>\<^verbatim>\<open>EXIT_SUCCESS\<close> is 0, \<^verbatim>\<open>EXIT_FAILURE\<close> is 1\<close>
  | Uncaught              \<comment> \<open>an exception nobody catches: \<^verbatim>\<open>std::terminate\<close>\<close>
  | ParentExits           \<comment> \<open>\<^verbatim>\<open>_exit\<close> in a parent of the daemon\<close>
  | Undefined             \<comment> \<open>behaviour that the language does not define\<close>

record main_env =
  m_os :: os
  m_boost :: boost_str
  m_files :: "string \<Rightarrow> file_result"
  m_toml :: "string \<Rightarrow> string + toml_table"               \<comment> \<open>\<open>Inl\<close>: \<^verbatim>\<open>what()\<close> of the error\<close>
  m_address :: "string \<Rightarrow> string option"                  \<comment> \<open>\<^verbatim>\<open>make_address\<close>, \<open>None\<close>: it throws\<close>
  m_ssl_context :: "ssl_ctx option"                     \<comment> \<open>\<open>None\<close>: the constructor throws\<close>
  m_ssl :: ssl_lib
  m_listen :: "string \<Rightarrow> 16 word \<Rightarrow> error_code \<times> error_code \<times> error_code \<times> error_code"
  m_reserve :: "32 word \<Rightarrow> bool"                          \<comment> \<open>room for so many threads can be reserved\<close>
  m_thread :: "nat \<Rightarrow> unit res"                           \<comment> \<open>up to the start of the thread with this number\<close>
  m_loop :: "process \<Rightarrow> unit res"                         \<comment> \<open>all threads run: \<open>Ok\<close> when every \<^verbatim>\<open>run()\<close> returns\<close>

record main_state =
  m_proc :: process
  m_stderr :: "string list"
  m_mask :: "nat option"
  m_ctx :: "ssl_ctx option"
  m_listeners :: "(16 word \<times> listener) list"
  m_notified :: "string list"
  m_started :: nat                       \<comment> \<open>threads that run the loop besides the main one\<close>
  m_workers :: "nat option"              \<comment> \<open>their number, once all of them and the main one run it\<close>

type_synonym 'a stage = "main_state \<Rightarrow> (outcome + 'a) \<times> main_state"

definition and_stage :: "'a stage \<Rightarrow> ('a \<Rightarrow> 'b stage) \<Rightarrow> 'b stage" where
  "and_stage f g s = (case f s of (Inl out, s1) \<Rightarrow> (Inl out, s1) | (Inr a, s1) \<Rightarrow> g a s1)"

definition with_proc :: "(process \<Rightarrow> process) \<Rightarrow> main_state \<Rightarrow> main_state" where
  "with_proc f s = s\<lparr>m_proc := f (m_proc s)\<rparr>"

definition add_logs :: "syslog_entry list \<Rightarrow> main_state \<Rightarrow> main_state" where
  "add_logs l = with_proc (\<lambda>p. p\<lparr>logs := logs p @ l\<rparr>)"

definition main_alert :: "main_env \<Rightarrow> string \<Rightarrow> main_state \<Rightarrow> main_state" where
  "main_alert e msg s = add_logs [(LOG_ALERT, msg @ os_error (m_os e) (m_proc s))] s"

section \<open>The stages\<close>

definition check_running :: "main_env \<Rightarrow> unit stage" where
  "check_running e s =
     (case check_pid (m_os e) (m_proc s) of
        Ok (True, p) \<Rightarrow> (Inr (), s\<lparr>m_proc := p\<rparr>)
      | Ok (False, p) \<Rightarrow> (Inl (Returned 1), s\<lparr>m_proc := p, m_stderr := m_stderr s @ [''Process already running'']\<rparr>)
      | _ \<Rightarrow> (Inl Undefined, s))"

definition load_config :: "main_env \<Rightarrow> server_state stage" where
  "load_config e s =
     (let s1 = add_logs [(LOG_INFO, ''Starting urlshorten'')] s in
      case m_toml e ''config.toml'' of
        Inl what \<Rightarrow> (Inl (Returned 1), add_logs [(LOG_ALERT, ''Parsing of config file failed: '' @ cstr what)] s1)
      | Inr config \<Rightarrow>
          (case MimeTypeMap_file (m_files e) ''mimetypes.txt'' of
             Ok types \<Rightarrow>
               let state = ServerState config types;
                   (ok, lg, lm) = set_log_level (m_boost e) (get_config_log_level state);
                   s2 = (add_logs lg s1)\<lparr>m_mask := lm\<rparr> in
               if \<not> ok then (Inl (Returned 1), s2) else (Inr state, s2)
           | _ \<Rightarrow> (Inl Uncaught, s1)))"

definition launch_listener :: "main_env \<Rightarrow> string \<Rightarrow> 16 word \<Rightarrow> main_state \<Rightarrow> main_state" where
  "launch_listener e address port s =
     (let (a, b, c, d) = m_listen e address port in
      s\<lparr>m_listeners := m_listeners s @ [(port, run_listener (new_listener a b c d))]\<rparr>)"

definition set_up_network :: "main_env \<Rightarrow> server_state \<Rightarrow> unit stage" where
  "set_up_network e st s =
     (case m_address e (get_config_address st) of
        None \<Rightarrow> (Inl Uncaught, s)
      | Some address \<Rightarrow>
          (case m_ssl_context e of
             None \<Rightarrow> (Inl Uncaught, s)
           | Some ctx \<Rightarrow>
               let (ok, lg, ctx1) = load_server_certificate (m_ssl e) st ctx;
                   s1 = (add_logs lg s)\<lparr>m_ctx := Some ctx1\<rparr> in
               if \<not> ok then (Inl (Returned 1), s1)
               else
                 let s2 = launch_listener e address (get_config_port st) s1;
                     s3 = (if get_config_port2 st \<noteq> 0
                           then launch_listener e address (get_config_port2 st) s2 else s2)
                 in (Inr (), s3)))"

definition notify_fork :: "string \<Rightarrow> main_state \<Rightarrow> main_state" where
  "notify_fork ev s = s\<lparr>m_notified := m_notified s @ [ev]\<rparr>"

definition become_daemon :: "main_env \<Rightarrow> server_state \<Rightarrow> unit stage" where
  "become_daemon e st s =
     (let s1 = notify_fork ''fork_prepare'' s in
      if get_config_daemon st then
        (case daemonise (m_os e) D_NO_CLOSE_FILES (m_proc s1) of
           (Some True, p) \<Rightarrow> (Inr (), notify_fork ''fork_child'' (s1\<lparr>m_proc := p\<rparr>))
         | (Some False, p) \<Rightarrow> (Inl (Returned 1), main_alert e ''Could not daemonise: '' (s1\<lparr>m_proc := p\<rparr>))
         | (None, p) \<Rightarrow> (Inl ParentExits, s1\<lparr>m_proc := p\<rparr>))
      else (Inr (), notify_fork ''fork_child'' s1))"

definition settle :: "main_env \<Rightarrow> server_state \<Rightarrow> unit stage" where
  "settle e st s =
     (let (ok1, p1) = write_pid (m_os e) (m_proc s); s1 = s\<lparr>m_proc := p1\<rparr> in
      if \<not> ok1 then (Inl (Returned 1), main_alert e ''Could not write PID file: '' s1)
      else
        let (ok2, p2) = drop_privs (m_os e) (get_config_user st) (get_config_group st) p1;
            s2 = s1\<lparr>m_proc := p2\<rparr> in
        if \<not> ok2 then (Inl (Returned 1), main_alert e ''Could not drop privileges: '' s2)
        else (Inr (), s2))"

text \<open>
  The threads are started one after the other, and each runs the loop at once. A thread that cannot be
  created throws a \<^verbatim>\<open>system_error\<close> that nobody catches, while those before it serve
  clients; meanwhile an exception may leave the loop on one of them.
\<close>

fun start_threads :: "main_env \<Rightarrow> nat \<Rightarrow> nat \<Rightarrow> unit res \<times> nat" where
  "start_threads e k 0 = (Ok (), k)"
| "start_threads e k (Suc n) =
     (case m_thread e k of Ok _ \<Rightarrow> start_threads e (Suc k) n | r \<Rightarrow> (r, k))"

text \<open>The count of the workers is computed on 32 bits, and wraps for 0.\<close>

definition serve :: "main_env \<Rightarrow> server_state \<Rightarrow> unit stage" where
  "serve e st s =
     (let n = get_config_threads st - 1 in
      if \<not> m_reserve e n then (Inl Uncaught, s)
      else
        let (r, k) = start_threads e 0 (unat n);
            s1 = s\<lparr>m_started := k\<rparr> in
        case r of
          Exn _ \<Rightarrow> (Inl Uncaught, s1)
        | UB \<Rightarrow> (Inl Undefined, s1)
        | Ok _ \<Rightarrow>
            let s2 = s1\<lparr>m_workers := Some (unat n)\<rparr> in
            (case m_loop e (m_proc s2) of
               Exn _ \<Rightarrow> (Inl Uncaught, s2)
             | UB \<Rightarrow> (Inl Undefined, s2)
             | Ok _ \<Rightarrow> (Inl (Returned 0), with_proc (remove_pid (m_os e)) s2)))"

text \<open>The stages before the loop, and all of them.\<close>

definition prepare :: "main_env \<Rightarrow> server_state stage" where
  "prepare e =
     and_stage (check_running e) (\<lambda>_.
     and_stage (load_config e) (\<lambda>st.
     and_stage (set_up_network e st) (\<lambda>_.
     and_stage (become_daemon e st) (\<lambda>_.
     and_stage (settle e st) (\<lambda>_ s. (Inr st, s))))))"

definition main_stages :: "main_env \<Rightarrow> unit stage" where
  "main_stages e = and_stage (prepare e) (serve e)"

definition start :: "process \<Rightarrow> main_state" where
  "start p = \<lparr>m_proc = p, m_stderr = [], m_mask = None, m_ctx = None, m_listeners = [], m_notified = [],
             m_started = 0, m_workers = None\<rparr>"

text \<open>\<^verbatim>\<open>main\<close>: the last stage always ends the process.\<close>

definition main :: "main_env \<Rightarrow> process \<Rightarrow> outcome \<times> main_state" where
  "main e p = (case main_stages e (start p) of (Inl out, s) \<Rightarrow> (out, s) | (Inr _, s) \<Rightarrow> (Returned 0, s))"

section \<open>What the stages do\<close>

text \<open>The contract of a stage: \<open>E\<close> where the process ends, \<open>R\<close> where it goes on.\<close>

definition stage_ok ::
    "(outcome \<Rightarrow> main_state \<Rightarrow> bool) \<Rightarrow> ('a \<Rightarrow> main_state \<Rightarrow> bool) \<Rightarrow> (outcome + 'a) \<times> main_state \<Rightarrow> bool" where
  "stage_ok E R res \<longleftrightarrow> (case res of (Inl out, s) \<Rightarrow> E out s | (Inr a, s) \<Rightarrow> R a s)"

lemma stage_ok_simps [simp]:
  "stage_ok E R (Inl out, s) \<longleftrightarrow> E out s" "stage_ok E R (Inr a, s) \<longleftrightarrow> R a s"
  by (simp_all add: stage_ok_def)

lemma stage_ok_and:
  assumes "stage_ok E Q (f s)" and "\<And>a s'. Q a s' \<Longrightarrow> stage_ok E R (g a s')"
  shows "stage_ok E R (and_stage f g s)"
proof -
  obtain r s' where f: "f s = (r, s')" by fastforce
  show ?thesis
  proof (cases r)
    case (Inl out)
    with assms(1) f show ?thesis by (simp add: and_stage_def)
  next
    case (Inr a)
    with assms f show ?thesis by (simp add: and_stage_def)
  qed
qed

text \<open>A failure is reported on the terminal or in the log, and the loop has not been entered.\<close>

definition reported :: "main_state \<Rightarrow> bool" where
  "reported s \<longleftrightarrow> m_stderr s \<noteq> [] \<or> (\<exists>msg. (LOG_ALERT, msg) \<in> set (logs (m_proc s)))"

definition stops_well :: "outcome \<Rightarrow> main_state \<Rightarrow> bool" where
  "stops_well out s \<longleftrightarrow> m_workers s = None \<and> m_started s = 0 \<and> (\<forall>n. out = Returned n \<longrightarrow> n = 1 \<and> reported s)"

lemma log_simps [simp]:
  "m_workers (add_logs l s) = m_workers s" "m_workers (main_alert e m s) = m_workers s"
  "m_workers (notify_fork ev s) = m_workers s" "m_workers (launch_listener e a port s) = m_workers s"
  "m_started (add_logs l s) = m_started s" "m_started (main_alert e m s) = m_started s"
  "m_started (notify_fork ev s) = m_started s" "m_started (launch_listener e a port s) = m_started s"
  "logs (m_proc (add_logs l s)) = logs (m_proc s) @ l"
  "logs (m_proc (main_alert e m s)) = logs (m_proc s) @ [(LOG_ALERT, m @ os_error (m_os e) (m_proc s))]"
  "logs (m_proc (notify_fork ev s)) = logs (m_proc s)"
  "m_proc (notify_fork ev s) = m_proc s" "m_proc (launch_listener e a port s) = m_proc s"
  "m_ctx (notify_fork ev s) = m_ctx s" "m_ctx (launch_listener e a port s) = m_ctx s"
  "m_listeners (notify_fork ev s) = m_listeners s" "m_listeners (add_logs l s) = m_listeners s"
  by (simp_all add: add_logs_def with_proc_def main_alert_def notify_fork_def launch_listener_def split: prod.splits)

lemma reported_alert [simp]: "reported (main_alert e m s)"
  unfolding reported_def log_simps 
  by (rule disjI2, rule exI [of _ "m @ os_error (m_os e) (m_proc s)"]) simp

text \<open>What is known after each stage.\<close>

definition fresh :: "main_state \<Rightarrow> bool" where
  "fresh s \<longleftrightarrow> m_workers s = None \<and> m_started s = 0 \<and> m_listeners s = []"

definition from_files :: "main_env \<Rightarrow> server_state \<Rightarrow> bool" where
  "from_files e st \<longleftrightarrow>
     (\<exists>config types. m_toml e ''config.toml'' = Inr config \<and>
        MimeTypeMap_file (m_files e) ''mimetypes.txt'' = Ok types \<and> st = ServerState config types)"

definition listening :: "main_env \<Rightarrow> server_state \<Rightarrow> (16 word \<times> listener) list \<Rightarrow> bool" where
  "listening e st ls \<longleftrightarrow>
     map fst ls = get_config_port st # (if get_config_port2 st = 0 then [] else [get_config_port2 st]) \<and>
     list_all (\<lambda>l. accepts (snd l) = 1) ls"

definition has_certificate :: "main_state \<Rightarrow> bool" where
  "has_certificate s \<longleftrightarrow>
     (\<exists>ctx. m_ctx s = Some ctx \<and> ctx_chain ctx \<noteq> None \<and> ctx_key ctx \<noteq> None \<and> ctx_dh ctx \<noteq> None)"

definition networked :: "main_env \<Rightarrow> server_state \<Rightarrow> main_state \<Rightarrow> bool" where
  "networked e st s \<longleftrightarrow> m_workers s = None \<and> m_started s = 0 \<and> listening e st (m_listeners s) \<and> has_certificate s"

definition detached :: "main_env \<Rightarrow> server_state \<Rightarrow> process \<Rightarrow> bool" where
  "detached e st p \<longleftrightarrow>
     (get_config_daemon st \<longrightarrow> (\<exists>q. daemonise (m_os e) D_NO_CLOSE_FILES q = (Some True, p)))"

text \<open>The process has written its pid file and given up its privileges.\<close>

definition settled :: "main_env \<Rightarrow> server_state \<Rightarrow> process \<Rightarrow> bool" where
  "settled e st p \<longleftrightarrow>
     (\<exists>p1 p2. detached e st p1 \<and> write_pid (m_os e) p1 = (True, p2) \<and>
        drop_privs (m_os e) (get_config_user st) (get_config_group st) p2 = (True, p))"

lemma check_running_ok:
  "fresh s \<Longrightarrow> stage_ok stops_well (\<lambda>_. fresh) (check_running e s)"
  by (auto simp: check_running_def stops_well_def reported_def fresh_def
      split: res.split bool.split prod.split)

lemma set_log_level_alert:
  "set_log_level b level = (ok, lg, lm) \<Longrightarrow> \<not> ok \<Longrightarrow> \<exists>msg. lg = [(LOG_ALERT, msg)]"
  by (auto simp: set_log_level_def Let_def split: if_splits)

lemma certificate_alert:
  "load_server_certificate lib st ctx = (ok, lg, ctx') \<Longrightarrow> \<not> ok \<Longrightarrow> \<exists>msg. lg = [(LOG_ALERT, msg)]"
  by (auto simp: load_server_certificate_def Let_def split: option.splits)

lemma certificate_loaded:
  "load_server_certificate lib st ctx = (True, lg, ctx') \<Longrightarrow>
     ctx_chain ctx' \<noteq> None \<and> ctx_key ctx' \<noteq> None \<and> ctx_dh ctx' \<noteq> None"
  by (auto simp: load_server_certificate_def Let_def split: option.splits)

lemma load_config_ok:
  assumes "fresh s"
  shows "stage_ok stops_well (\<lambda>st t. fresh t \<and> from_files e st) (load_config e s)"
proof (cases "m_toml e ''config.toml''")
  case (Inl what)
  with assms show ?thesis
    by (auto simp: load_config_def stops_well_def reported_def fresh_def Let_def)
next
  case (Inr config)
  show ?thesis
  proof (cases "MimeTypeMap_file (m_files e) ''mimetypes.txt''")
    case (Ok types)
    obtain ok lg lm where l: "set_log_level (m_boost e) (get_config_log_level (ServerState config types)) = (ok, lg, lm)"
      by (metis prod_cases3)
    show ?thesis
      using assms Inr Ok l set_log_level_alert [OF l]
      by (cases ok) (auto simp: load_config_def Let_def stops_well_def reported_def fresh_def from_files_def)
  qed (use assms Inr in \<open>auto simp: load_config_def stops_well_def fresh_def Let_def\<close>)
qed

lemma listeners_launched:
  assumes "m_listeners s = []"
  shows "listening e st (m_listeners
           (let s2 = launch_listener e address (get_config_port st) s in
            if get_config_port2 st \<noteq> 0 then launch_listener e address (get_config_port2 st) s2 else s2))"
  using assms by (auto simp: Let_def listening_def launch_listener_def split: prod.splits)

lemma set_up_network_ok:
  assumes "fresh s"
  shows "stage_ok stops_well (\<lambda>_. networked e st) (set_up_network e st s)"
proof (cases "m_address e (get_config_address st) = None \<or> m_ssl_context e = None")
  case True
  with assms show ?thesis
    by (auto simp: set_up_network_def stops_well_def fresh_def split: option.split)
next
  case False
  then obtain address ctx where given: "m_address e (get_config_address st) = Some address" "m_ssl_context e = Some ctx"
    by auto
  obtain ok lg ctx1 where l: "load_server_certificate (m_ssl e) st ctx = (ok, lg, ctx1)"
    by (metis prod_cases3)
  show ?thesis
  proof (cases ok)
    case False
    with assms given l certificate_alert [OF l] show ?thesis
      by (auto simp: set_up_network_def Let_def stops_well_def reported_def fresh_def)
  next
    case True
    with assms given l certificate_loaded [of "m_ssl e" st ctx lg ctx1]
      listeners_launched [of "(add_logs lg s)\<lparr>m_ctx := Some ctx1\<rparr>" e st address]
    show ?thesis
      by (auto simp: set_up_network_def Let_def networked_def has_certificate_def fresh_def)
  qed
qed

lemma become_daemon_ok:
  assumes "networked e st s"
  shows "stage_ok stops_well (\<lambda>_ t. networked e st t \<and> detached e st (m_proc t)) (become_daemon e st s)"
proof (cases "get_config_daemon st")
  case False
  with assms show ?thesis by (auto simp: become_daemon_def Let_def networked_def detached_def has_certificate_def)
next
  case True
  obtain o1 p where d: "daemonise (m_os e) D_NO_CLOSE_FILES (m_proc s) = (o1, p)" by fastforce
  from outcome_cases [of o1] show ?thesis
    using assms True d
    by (auto simp: become_daemon_def Let_def stops_well_def networked_def detached_def has_certificate_def)
qed

lemma settle_ok:
  assumes "networked e st s" and "detached e st (m_proc s)"
  shows "stage_ok stops_well (\<lambda>_ t. networked e st t \<and> settled e st (m_proc t)) (settle e st s)"
proof -
  obtain ok1 p1 where 1: "write_pid (m_os e) (m_proc s) = (ok1, p1)" by fastforce
  obtain ok2 p2 where 2: "drop_privs (m_os e) (get_config_user st) (get_config_group st) p1 = (ok2, p2)" by fastforce
  show ?thesis
    using assms 1 2
    by (cases ok1; cases ok2)
       (auto simp: settle_def Let_def stops_well_def networked_def settled_def has_certificate_def)
qed

lemma prepare_ok:
  "stage_ok stops_well (\<lambda>st t. networked e st t \<and> settled e st (m_proc t) \<and> from_files e st) (prepare e (start p))"
proof -
  let ?R = "\<lambda>st t. networked e st t \<and> settled e st (m_proc t) \<and> from_files e st"
  have 5: "stage_ok stops_well ?R (and_stage (settle e st) (\<lambda>_ s. (Inr st, s)) s)"
    if "networked e st s \<and> detached e st (m_proc s)" "from_files e st" for st s
    using that by (intro stage_ok_and [where f = "settle e st", OF settle_ok]) auto
  have 4: "stage_ok stops_well ?R (and_stage (become_daemon e st) (\<lambda>_. and_stage (settle e st) (\<lambda>_ s. (Inr st, s))) s)"
    if "networked e st s" "from_files e st" for st s
    by (rule stage_ok_and [where f = "become_daemon e st", OF become_daemon_ok [OF that(1)]])
       (rule 5 [OF _ that(2)])
  have 3: "stage_ok stops_well ?R (and_stage (set_up_network e st) (\<lambda>_. and_stage (become_daemon e st) (\<lambda>_.
      and_stage (settle e st) (\<lambda>_ s. (Inr st, s)))) s)" if "fresh s \<and> from_files e st" for st s
    using that
    by (intro stage_ok_and [where f = "set_up_network e st", OF set_up_network_ok]) (auto intro: 4)
  have 2: "stage_ok stops_well ?R (and_stage (load_config e) (\<lambda>st. and_stage (set_up_network e st) (\<lambda>_.
      and_stage (become_daemon e st) (\<lambda>_. and_stage (settle e st) (\<lambda>_ s. (Inr st, s))))) s)" if "fresh s" for s
    by (rule stage_ok_and [where f = "load_config e", OF load_config_ok [OF that]]) (rule 3)
  have "fresh (start p)" by (simp add: fresh_def start_def)
  then show ?thesis
    unfolding prepare_def
    by (intro stage_ok_and [where f = "check_running e", OF check_running_ok] 2)
qed

lemma workers_count:
  "unat (n - 1 :: 32 word) = (if n = 0 then 2 ^ 32 - 1 else unat n - 1)"
  by (cases "n = 0") (simp_all add: unat_minus_one unsigned_minus_1_eq_mask mask_eq_exp_minus_1)

lemma start_threads_count:
  "start_threads e k n = (r, k') \<Longrightarrow> k' \<le> k + n \<and> (r = Ok () \<longrightarrow> k' = k + n) \<and> (r \<noteq> Ok () \<longrightarrow> m_thread e k' = r)"
proof (induction n arbitrary: k)
  case (Suc n)
  then show ?case by (cases "m_thread e k") fastforce+
qed auto

text \<open>What the last stage does, in one place.\<close>

lemma serve_cases:
  "(\<exists>out' s'. serve e st s = (Inl out', s')) \<and>
   (serve e st s = (Inl out, s') \<longrightarrow>
     (let n = unat (get_config_threads st - 1) in
      (out = Uncaught \<and> s' = s) \<or>
      (\<exists>k. k \<le> n \<and> s' = s\<lparr>m_started := k\<rparr> \<and>
         (m_thread e k = UB \<and> out = Undefined \<or> (\<exists>x. m_thread e k = Exn x) \<and> out = Uncaught)) \<or>
      (m_loop e (m_proc s) = UB \<and> out = Undefined \<or> (\<exists>x. m_loop e (m_proc s) = Exn x) \<and> out = Uncaught) \<and>
        s' = s\<lparr>m_started := n, m_workers := Some n\<rparr> \<or>
      m_loop e (m_proc s) = Ok () \<and> out = Returned 0 \<and>
        s' = with_proc (remove_pid (m_os e)) (s\<lparr>m_started := n, m_workers := Some n\<rparr>)))"
proof -
  obtain r k where st: "start_threads e 0 (unat (get_config_threads st - 1)) = (r, k)" by fastforce
  show ?thesis
    using st start_threads_count [OF st]
    by (cases r; cases "m_loop e (m_proc s)") (auto simp: serve_def Let_def)
qed

text \<open>A run stops in a stage before the loop, or all those stages went well.\<close>

lemma main_runs:
  assumes "main e p = (out, s)"
  shows "stops_well out s \<or>
    (\<exists>st t. networked e st t \<and> settled e st (m_proc t) \<and> from_files e st \<and> serve e st t = (Inl out, s))"
proof -
  obtain r t where prep: "prepare e (start p) = (r, t)" by fastforce
  show ?thesis
  proof (cases r)
    case (Inl out')
    then show ?thesis
      using assms prep prepare_ok [of e p] by (auto simp: main_def main_stages_def and_stage_def)
  next
    case (Inr st)
    have "\<exists>out' s'. serve e st t = (Inl out', s')"
      using serve_cases by blast
    then show ?thesis
      using assms prep Inr prepare_ok [of e p] by (auto simp: main_def main_stages_def and_stage_def)
  qed
qed

section \<open>A concrete start\<close>

definition demo_main :: main_env where
  "demo_main =
     \<lparr>m_os = demo_os, m_boost = boost_ref, m_files = (\<lambda>_. FileData [] False), m_toml = (\<lambda>_. Inr empty_toml),
      m_address = Some, m_ssl_context = Some new_ctx,
      m_ssl = \<lparr>use_certificate_chain_file = (\<lambda>_. None), use_private_key_file = (\<lambda>_. None), use_tmp_dh_file = (\<lambda>_. None)\<rparr>,
      m_listen = (\<lambda>_ _. (Success, Success, Success, Success)), m_reserve = (\<lambda>_. True),
      m_thread = (\<lambda>_. Ok ()), m_loop = (\<lambda>_. Ok ())\<rparr>"

lemma demo_main_runs:
  "fst (main demo_main demo_process) = Returned 0" "m_workers (snd (main demo_main demo_process)) = Some 1"
  by code_simp+

section \<open>Properties\<close>

text \<open>
  C24: The event loop is entered, on any thread, only by a process that is ready for it: the
  configuration and the table of MIME types were read, all three TLS files are loaded, one listener
  per configured port has an accept in flight, the process is the daemon if one was asked for, its
  pid file is written and after that \<open>drop_privs\<close> succeeded. The number of worker threads is one
  less than configured, and wraps to 4294967295 when 0 is configured; fewer run when one of them
  cannot be created.
\<close>

theorem loop_needs_preparation:
  assumes "main e p = (out, s)" and "m_workers s = Some n \<or> 0 < m_started s"
  shows "\<exists>config types st p1 p2 p3 N.
    m_toml e ''config.toml'' = Inr config \<and> MimeTypeMap_file (m_files e) ''mimetypes.txt'' = Ok types \<and>
    st = ServerState config types \<and> has_certificate s \<and> listening e st (m_listeners s) \<and> detached e st p1 \<and>
    write_pid (m_os e) p1 = (True, p2) \<and>
    drop_privs (m_os e) (get_config_user st) (get_config_group st) p2 = (True, p3) \<and>
    (m_proc s = p3 \<or> m_proc s = remove_pid (m_os e) p3) \<and>
    N = (if get_config_threads st = 0 then 4294967295 else unat (get_config_threads st) - 1) \<and>
    m_started s \<le> N \<and> (m_workers s = None \<or> m_workers s = Some N \<and> m_started s = N)"
proof -
  obtain st t where t: "networked e st t" "settled e st (m_proc t)" "from_files e st" "serve e st t = (Inl out, s)"
    using main_runs [OF assms(1)] assms(2) by (auto simp: stops_well_def)
  have "m_listeners s = m_listeners t" "m_ctx s = m_ctx t"
    "m_proc s = m_proc t \<or> m_proc s = remove_pid (m_os e) (m_proc t)"
    "m_started s \<le> unat (get_config_threads st - 1)"
    "m_workers s = None \<or> m_workers s = Some (unat (get_config_threads st - 1)) \<and>
       m_started s = unat (get_config_threads st - 1)"
    using serve_cases [of e st t out s] t(1,4) by (auto simp: with_proc_def networked_def Let_def)
  moreover from this(1,2) have "listening e st (m_listeners s)" "has_certificate s"
    using t(1) by (simp_all add: networked_def has_certificate_def)
  ultimately show ?thesis
    using t(2,3) unfolding workers_count [of "get_config_threads st"] settled_def from_files_def by fastforce
qed

theorem loop_needs_preparation_witness:
  "\<exists>out s p2 p3. main demo_main demo_process = (out, s) \<and> has_certificate s \<and>
     drop_privs demo_os [] [] p2 = (True, p3)"
proof -
  obtain out s where m: "main demo_main demo_process = (out, s)" by fastforce
  then have w: "m_workers s = Some 1 \<or> 0 < m_started s" using demo_main_runs(2) by simp
  have "get_config_user (ServerState empty_toml types) = []" "get_config_group (ServerState empty_toml types) = []"
    "m_toml demo_main x = Inr empty_toml" "m_os demo_main = demo_os" for types x
    by (simp_all add: config_defs ServerState_def empty_toml_def demo_main_def)
  with loop_needs_preparation [OF m w] m show ?thesis by auto
qed

text \<open>
  No silent failure: the program returns \<^verbatim>\<open>EXIT_FAILURE\<close> only before the event loop, and
  only after a message on the terminal or an alert in the log; it returns \<^verbatim>\<open>EXIT_SUCCESS\<close>
  only after the loop, having tried to remove its pid file.
\<close>

theorem main_reports_failure:
  assumes "main e p = (Returned n, s)"
  shows "n = 1 \<and> m_workers s = None \<and> reported s \<or>
         n = 0 \<and> m_workers s \<noteq> None \<and> (\<exists>as x. calls (m_proc s) = as @ [(Unlink pid_file_path, x)])"
proof -
  consider (stop) "stops_well (Returned n) s"
    | (loop) st t where "serve e st t = (Inl (Returned n), s)"
    using main_runs [OF assms] by blast
  then show ?thesis
  proof cases
    case stop
    then show ?thesis by (auto simp: stops_well_def)
  next
    case loop
    then show ?thesis
      using serve_cases [of e st t "Returned n" s]
      by (auto simp: with_proc_def remove_pid_def do_call_def Let_def)
  qed
qed

theorem main_reports_failure_witness:
  "\<exists>s as x. main demo_main demo_process = (Returned 0, s) \<and> m_workers s \<noteq> None \<and>
            calls (m_proc s) = as @ [(Unlink pid_file_path, x)]"
proof -
  obtain s where m: "main demo_main demo_process = (Returned 0, s)"
    using demo_main_runs(1) by (metis prod.collapse)
  from main_reports_failure [OF m] m show ?thesis by auto
qed

end
