(* ===== verification/Program.thy ===== *)
theory Program
  imports System Main_Prog
begin

text \<open>
  The program from its start to its end: the stages of \<^verbatim>\<open>main\<close> followed by the event loop
  over the listeners they launched. The loop decides how the last stage goes on.
\<close>

section \<open>A run of the program\<close>

text \<open>
  The handlers work with the state that \<^verbatim>\<open>main\<close> has built, and with the same library of string
  algorithms; the other libraries of the handlers are those of \<open>e\<close>.
\<close>

definition serving :: "main_env \<Rightarrow> server_state \<Rightarrow> ('d, 't) env \<Rightarrow> ('d, 't) env" where
  "serving m st e = e\<lparr>state := st, boost := m_boost m\<rparr>"

text \<open>
  What the rest of \<^verbatim>\<open>main\<close> sees of a server at the end of its loop: every \<^verbatim>\<open>run()\<close> has
  returned, or a handler has not.
\<close>

definition loop_result :: "'d server \<Rightarrow> unit res" where
  "loop_result c =
     (case sv_crash c of None \<Rightarrow> Ok () | Some (Escaped x) \<Rightarrow> Exn x | Some UndefinedBehaviour \<Rightarrow> UB)"

text \<open>
  A run ends before any thread is in the loop. Or all threads are, and the loop goes on until
  \<^verbatim>\<open>run()\<close> returns or a handler does not. Or the first workers serve clients while a later one is
  created, and that fails, or a handler does not return meanwhile. The last argument is the server
  then.
\<close>

inductive program ::
    "main_env \<Rightarrow> ('d, 't) env \<Rightarrow> (response \<Rightarrow> bool) \<Rightarrow> process \<Rightarrow> 'd world \<Rightarrow>
       outcome \<Rightarrow> main_state \<Rightarrow> 'd server option \<Rightarrow> bool"
  for m :: main_env and e :: "('d, 't) env" and need_eof :: "response \<Rightarrow> bool"
    and p :: process and w :: "'d world"
where
  Ends: "main m p = (out, s) \<Longrightarrow> m_workers s = None \<Longrightarrow> m_started s = 0 \<Longrightarrow> program m e need_eof p w out s None"
| Serves: "prepare m (start p) = (Inr st, t) \<Longrightarrow>
     (server_step (serving m st e) need_eof)\<^sup>*\<^sup>* (boot (map snd (m_listeners t)) w) c \<Longrightarrow>
     run_returns c \<or> sv_crash c \<noteq> None \<Longrightarrow> m_loop m (m_proc t) = loop_result c \<Longrightarrow>
     main m p = (out, s) \<Longrightarrow> m_workers s = Some n \<Longrightarrow> program m e need_eof p w out s (Some c)"
| Dies: "prepare m (start p) = (Inr st, t) \<Longrightarrow>
     (server_step (serving m st e) need_eof)\<^sup>*\<^sup>* (boot (map snd (m_listeners t)) w) c \<Longrightarrow>
     m_thread m (m_started s) = (if sv_crash c = None then Exn SystemError else loop_result c) \<Longrightarrow>
     main m p = (out, s) \<Longrightarrow> m_workers s = None \<Longrightarrow> 0 < m_started s \<Longrightarrow> program m e need_eof p w out s (Some c)"

inductive_cases program_servesE: "program m e need_eof p w out s (Some c)"
inductive_cases program_endsE: "program m e need_eof p w out s None"

lemma prepared:
  "prepare m (start p) = (Inr st, t) \<Longrightarrow> networked m st t \<and> from_files m st"
  using prepare_ok [of m p] by (simp add: networked_def)

text \<open>The listeners that \<^verbatim>\<open>main\<close> launches have accepted nothing yet.\<close>

lemma launch_listener_new:
  "list_all (\<lambda>l. launched (snd l) = []) (m_listeners s) \<Longrightarrow>
     list_all (\<lambda>l. launched (snd l) = []) (m_listeners (launch_listener e a port s))"
  by (simp add: launch_listener_def split: prod.split)

definition new_listeners :: "main_state \<Rightarrow> bool" where
  "new_listeners s \<longleftrightarrow> list_all (\<lambda>l. launched (snd l) = []) (m_listeners s)"

lemma prepare_new_listeners:
  "stage_ok (\<lambda>_ _. True) (\<lambda>_. new_listeners) (prepare e (start p))"
proof -
  have start: "new_listeners (start p)" by (simp add: new_listeners_def start_def)
  have 1: "stage_ok (\<lambda>_ _. True) (\<lambda>_. new_listeners) (check_running e s)" if "new_listeners s" for s
    using that by (auto simp: check_running_def new_listeners_def split: res.split bool.split prod.split)
  have 2: "stage_ok (\<lambda>_ _. True) (\<lambda>_. new_listeners) (load_config e s)" if "new_listeners s" for s
    using that by (auto simp: load_config_def new_listeners_def Let_def split: sum.split res.split prod.split)
  have 3: "stage_ok (\<lambda>_ _. True) (\<lambda>_. new_listeners) (set_up_network e st s)" if "new_listeners s" for s st
    using that
    by (auto simp: set_up_network_def new_listeners_def Let_def intro!: launch_listener_new
        split: option.split prod.split)
  have 4: "stage_ok (\<lambda>_ _. True) (\<lambda>_. new_listeners) (become_daemon e st s)" if "new_listeners s" for s st
    using that by (auto simp: become_daemon_def new_listeners_def Let_def split: option.split prod.split bool.split)
  have 5: "stage_ok (\<lambda>_ _. True) (\<lambda>_. new_listeners) (settle e st s)" if "new_listeners s" for s st
    using that by (auto simp: settle_def new_listeners_def Let_def split: prod.split)
  show ?thesis
    unfolding prepare_def
    by (intro stage_ok_and [where Q = "\<lambda>_. new_listeners"] 1 2 3 4 5 start) simp_all
qed

lemma main_serves:
  assumes "prepare m (start p) = (Inr st, t)" and "main m p = (out, s)"
  shows "serve m st t = (Inl out, s)" and "m_workers t = None"
proof -
  show "m_workers t = None" using prepared [OF assms(1)] by (simp add: networked_def)
  obtain out' s' where "serve m st t = (Inl out', s')" using serve_cases by blast
  then show "serve m st t = (Inl out, s)"
    using assms by (simp add: main_def main_stages_def and_stage_def)
qed

text \<open>How a run that has served ends, with all its threads and with the first of them.\<close>

definition served_to_end :: "main_env \<Rightarrow> outcome \<Rightarrow> main_state \<Rightarrow> 'd server \<Rightarrow> bool" where
  "served_to_end m out s c \<longleftrightarrow>
     run_returns c \<and> sv_crash c = None \<and> out = Returned 0 \<and> (\<exists>q. m_proc s = remove_pid (m_os m) q) \<or>
     (\<exists>x. sv_crash c = Some (Escaped x)) \<and> out = Uncaught \<or> sv_crash c = Some UndefinedBehaviour \<and> out = Undefined"

definition served_in_part :: "main_env \<Rightarrow> outcome \<Rightarrow> main_state \<Rightarrow> 'd server \<Rightarrow> bool" where
  "served_in_part m out s c \<longleftrightarrow>
     sv_crash c = None \<and> out = Uncaught \<and> m_workers s = None \<and> m_thread m (m_started s) = Exn SystemError \<or>
     (\<exists>x. sv_crash c = Some (Escaped x)) \<and> out = Uncaught \<or> sv_crash c = Some UndefinedBehaviour \<and> out = Undefined"

lemma remove_pid_effect:
  "\<exists>as x. calls (remove_pid os q) = as @ [(Unlink pid_file_path, x)] \<and> (x = 0 \<longrightarrow> pid_file (remove_pid os q) = None)"
  by (simp add: remove_pid_def do_call_def Let_def)

lemma loop_result_simps [simp]:
  "loop_result c = Ok () \<longleftrightarrow> sv_crash c = None" "loop_result c = Exn x \<longleftrightarrow> sv_crash c = Some (Escaped x)"
  "loop_result c = UB \<longleftrightarrow> sv_crash c = Some UndefinedBehaviour"
  by (auto simp: loop_result_def split: option.split crash.split)

lemma served_all:
  assumes "prepare m (start p) = (Inr st, t)" and "main m p = (out, s)" and "m_workers s = Some n"
    and "m_loop m (m_proc t) = loop_result c" and "run_returns c \<or> sv_crash c \<noteq> None"
  shows "served_to_end m out s c"
  using serve_cases [of m st t out s] main_serves [OF assms(1,2)] assms(3-5)
  by (auto simp: served_to_end_def with_proc_def Let_def)

lemma served_some:
  assumes "prepare m (start p) = (Inr st, t)" and "main m p = (out, s)" and "m_workers s = None" and "0 < m_started s"
    and "m_thread m (m_started s) = (if sv_crash c = None then Exn SystemError else loop_result c)"
  shows "served_in_part m out s c"
proof -
  have "m_started t = 0" using prepared [OF assms(1)] by (simp add: networked_def)
  then have "m_thread m (m_started s) = UB \<and> out = Undefined \<or> (\<exists>x. m_thread m (m_started s) = Exn x) \<and> out = Uncaught"
    using serve_cases [of m st t out s] main_serves [OF assms(1,2)] assms(3,4) by (auto simp: with_proc_def Let_def)
  then show ?thesis
    using assms(3,5) by (cases "sv_crash c") (auto simp: served_in_part_def)
qed

lemma program_loop:
  assumes "program m e need_eof p w out s (Some c)"
    and "\<forall>st. from_files m st \<longrightarrow> store_inv rows (serving m st e) w"
  shows "\<exists>st. from_files m st \<and> server_inv rows (serving m st e) c \<and>
           map_of (table rows (serving m st e) w) \<subseteq>\<^sub>m map_of (table rows (serving m st e) (sv_world c)) \<and>
           (served_to_end m out s c \<or> served_in_part m out s c)"
proof -
  from assms(1) obtain st t where prep: "prepare m (start p) = (Inr st, t)"
    and run: "(server_step (serving m st e) need_eof)\<^sup>*\<^sup>* (boot (map snd (m_listeners t)) w) c"
    and ends: "served_to_end m out s c \<or> served_in_part m out s c"
    by (rule program_servesE) (blast dest: served_all served_some)+
  have t: "networked m st t" "from_files m st" using prepared [OF prep] by simp_all
  have "new_listeners t" using prepare_new_listeners [of m p] prep by simp
  then have "\<forall>l\<in>set (map snd (m_listeners t)). accepts l = 1 \<and> launched l = []"
    using t(1) by (auto simp: networked_def listening_def new_listeners_def list_all_iff)
  then have "server_inv rows (serving m st e) (boot (map snd (m_listeners t)) w)"
    using boot_inv assms(2) t(2) by blast
  from server_run_inv [OF run this] show ?thesis using t(2) ends by auto
qed

lemma main_stops:
  assumes "main m p = (out, s)" and "m_workers s = None"
  shows "\<forall>n. out = Returned n \<longrightarrow> n = 1 \<and> reported s"
proof -
  consider "stops_well out s" | st t where "serve m st t = (Inl out, s)" using main_runs [OF assms(1)] by blast
  then show ?thesis
  proof cases
    case (2 st t)
    with serve_cases [of m st t out s] assms(2) show ?thesis by (auto simp: with_proc_def Let_def)
  qed (simp add: stops_well_def)
qed

section \<open>A concrete run\<close>

lemma demo_serving:
  "\<forall>st. from_files demo_main st \<longrightarrow> store_inv (\<lambda>d. d) (serving demo_main st demo_env) demo_world"
proof (intro allI impI)
  fix st
  assume "from_files demo_main st"
  then obtain types where "st = ServerState empty_toml types"
    by (auto simp: from_files_def demo_main_def)
  then have "get_config_doc_root st = ''.''"
    by (simp add: config_defs ServerState_def empty_toml_def)
  then show "store_inv (\<lambda>d. d) (serving demo_main st demo_env) demo_world"
    by (simp add: store_inv_def env_ok_def serving_def demo_main_def table_ok_def NUL_def)
qed

lemma demo_program:
  "\<exists>s c. program demo_main demo_env need_eof demo_process demo_world (Returned 0) s (Some c)"
proof -
  obtain s where m: "main demo_main demo_process = (Returned 0, s)" "m_workers s = Some 1"
    using demo_main_runs by (metis prod.collapse)
  obtain st t where prep: "prepare demo_main (start demo_process) = (Inr st, t)"
  proof (cases "prepare demo_main (start demo_process)")
    case (Pair r t)
    then show ?thesis
      using that m prepare_ok [of demo_main demo_process]
      by (cases r) (auto simp: main_def main_stages_def and_stage_def stops_well_def)
  qed
  let ?c = "boot (map snd (m_listeners t)) demo_world :: (string \<Rightarrow> url_rows) server"
  have "server_step (serving demo_main st demo_env) need_eof ?c (on_signal (?c\<lparr>sv_signals := 0\<rparr>))"
    by (intro Signalled) simp_all
  then have run: "(server_step (serving demo_main st demo_env) need_eof)\<^sup>*\<^sup>* ?c (on_signal (?c\<lparr>sv_signals := 0\<rparr>))"
    by blast
  have crash: "sv_crash (on_signal (?c\<lparr>sv_signals := 0\<rparr>)) = None"
    by (simp add: on_signal_def boot_def wait_signals_def)
  then have "run_returns (on_signal (?c\<lparr>sv_signals := 0\<rparr>))"
    by (simp add: run_returns_def on_signal_def)
  moreover have "m_loop demo_main (m_proc t) = loop_result (on_signal (?c\<lparr>sv_signals := 0\<rparr>))"
    using crash by (simp add: demo_main_def loop_result_def)
  ultimately have "program demo_main demo_env need_eof demo_process demo_world (Returned 0) s
      (Some (on_signal (?c\<lparr>sv_signals := 0\<rparr>)))"
    using Serves [OF prep run _ _ m] by simp
  then show ?thesis by blast
qed

end
