(* ===== verification/Concurrency.thy ===== *)
theory Concurrency
  imports System
begin

text \<open>
  What holds of handlers that run on several threads and interleave between their calls of
  SQLite: the server refines the abstract map of links, and no redirect leads anywhere but to the
  fixed video or a stored link.
\<close>

section \<open>Redirects\<close>

text \<open>The redirects of a session lead to links of the table, which may have grown since.\<close>

definition redirect_ok :: "url_rows \<Rightarrow> request \<Rightarrow> response \<Rightarrow> bool" where
  "redirect_ok tab req r \<longleftrightarrow> (res_status r = 301 \<longrightarrow> leads_to tab (cstr (drop 1 (req_target req))) r)"

definition redirects_ok :: "url_rows \<Rightarrow> session \<Rightarrow> bool" where
  "redirects_ok tab s \<longleftrightarrow> list_all2 (redirect_ok tab) (requests s) (history s)"

lemma redirect_ok_mono: "redirect_ok tab req r \<Longrightarrow> set tab \<subseteq> set tab' \<Longrightarrow> redirect_ok tab' req r"
  by (auto simp: redirect_ok_def leads_to_def)

lemma redirects_ok_mono:
  assumes "redirects_ok tab s" and "set tab \<subseteq> set tab'"
  shows "redirects_ok tab' s"
proof -
  have "list_all2 (redirect_ok tab) (requests s) (history s)"
    using assms(1) by (simp add: redirects_ok_def)
  then show ?thesis
    unfolding redirects_ok_def by (rule list_all2_mono) (rule redirect_ok_mono [OF _ assms(2)])
qed

lemma redirects_ok_snoc:
  "redirects_ok tab s \<Longrightarrow> redirect_ok tab req r \<Longrightarrow> requests s' = requests s @ [req] \<Longrightarrow>
     history s' = history s @ [r] \<Longrightarrow> redirects_ok tab s'"
  by (simp add: redirects_ok_def list_all2_appendI)

lemma row_step_mono: "row_step tab tab' \<Longrightarrow> set tab \<subseteq> set tab'"
  by (auto simp: row_step_def)

lemma new_session_redirects: "redirects_ok tab (new_session k buf)"
  by (cases k) (simp_all add: redirects_ok_def run_defs history_def)

lemma move_redirects:
  assumes env: "env_ok rows e" and mv: "session_move e need_eof (s, w) (s', w')" and inv: "session_inv ver s"
    and ok: "redirects_ok (table rows e w) s"
  shows "redirects_ok (table rows e w') s'"
  using move_history [OF mv inv]
proof (elim disjE conjE exE)
  fix req
  assume h: "handle_request e req w = Ok w'" and s': "requests s' = requests s @ [req]"
    and hist: "\<forall>r. sent w' = sent w @ [r] \<longrightarrow> history s' = history s @ [r]"
  obtain r where r: "sent w' = sent w @ [r]" "redirect_ok (table rows e w) req r"
    using handle_request_effect [OF env h] by (auto simp: replied_def redirect_ok_def)
  have "redirects_ok (table rows e w) s'"
    using redirects_ok_snoc [OF ok r(2) s'] hist r(1) by simp
  then show ?thesis
    using redirects_ok_mono row_step_mono request_table [OF env h] by blast
qed (use ok in \<open>simp add: redirects_ok_def\<close>)

definition all_redirects_ok :: "('d \<Rightarrow> string \<Rightarrow> url_rows) \<Rightarrow> ('d, 't) env \<Rightarrow> 'd server \<Rightarrow> bool" where
  "all_redirects_ok rows e c \<longleftrightarrow> (\<forall>s\<in>set (sv_sessions c). redirects_ok (table rows e (sv_world c)) s)"

lemma redirects_step:
  assumes step: "server_step e need_eof c c'" and inv: "server_inv rows e c" and ok: "all_redirects_ok rows e c"
  shows "all_redirects_ok rows e c'"
proof -
  have env: "env_ok rows e" using inv by (simp add: server_inv_def store_inv_def)
  have sub: "set (table rows e (sv_world c)) \<subseteq> set (table rows e (sv_world c'))"
    using server_step_inv [OF step inv] row_step_mono by blast
  have old: "\<forall>s\<in>set (sv_sessions c). redirects_ok (table rows e (sv_world c')) s"
    using ok redirects_ok_mono [OF _ sub] by (simp add: all_redirects_ok_def)
  show ?thesis
    using step
  proof cases
    case (Detected i n ec result buf d new)
    then show ?thesis
      using old on_detect_session [OF Detected(5)] by (auto simp: all_redirects_ok_def new_session_redirects)
  next
    case (Moved i s w)
    have "redirects_ok (table rows e w) s"
      using move_redirects [where ver = "beast_version e", OF env Moved(5)] inv ok Moved(3) by (simp add: server_inv_def all_redirects_ok_def)
    then have "\<forall>s\<in>set ((sv_sessions c)[i := s]). redirects_ok (table rows e w) s"
      using old Moved(1) by (intro all_replace) simp_all
    then show ?thesis using Moved(1) by (simp add: all_redirects_ok_def)
  next
    case (Waited d)
    have "redirects_ok tab (s\<lparr>clock := t\<rparr>) = redirects_ok tab s" for tab s t
      by (simp add: redirects_ok_def history_def)
    then show ?thesis
      using old pass_time_session [of _ d c] Waited(1) by (fastforce simp: all_redirects_ok_def)
  next
    case (Resumed js j ks n w s)
    let ?s0 = "sv_sessions c ! job_session j"
    have j: "job_session j < length (sv_sessions c)" "pending_ok e (job_request j) (job_pending j)"
      using inv Resumed(3) by (auto simp: server_inv_def jobs_ok_def)
    obtain r where r: "sent w = sent (sv_world c) @ [r]" "redirect_ok (table rows e (sv_world c)) (job_request j) r"
      using finish_effect [OF env j(2), of "sv_world c"] Resumed(5) by (auto simp: replied_def redirect_ok_def)
    have "history s = history ?s0 @ [r]" "requests s = requests ?s0"
      using Resumed(6) r(1) after_request_history [of r "?s0\<lparr>reads := n, inbuf := job_rest j\<rparr>"]
      by (simp_all add: history_def)
    then have "redirects_ok (table rows e w) (note_read Success (job_request j) s)"
      using redirects_ok_snoc [OF _ redirect_ok_mono [OF r(2) sub], of ?s0] old j(1) Resumed(1) by simp
    then have "\<forall>s\<in>set ((sv_sessions c)[job_session j := note_read Success (job_request j) s]). redirects_ok (table rows e w) s"
      using old Resumed(1) by (intro all_replace) simp_all
    then show ?thesis using Resumed(1) by (simp add: all_redirects_ok_def)
  qed (use old in \<open>simp_all add: all_redirects_ok_def on_signal_def\<close>)
qed

section \<open>The abstract machine\<close>

lemma run_links:
  assumes "(server_step e need_eof)\<^sup>*\<^sup>* c c'" and "server_inv rows e c" and "all_redirects_ok rows e c"
  shows "link_step\<^sup>*\<^sup>* (map_of (table rows e (sv_world c))) (map_of (table rows e (sv_world c'))) \<and>
         server_inv rows e c' \<and> all_redirects_ok rows e c'"
  using assms
proof induction
  case (step c1 c2)
  then have "server_inv rows e c1" "all_redirects_ok rows e c1" by simp_all
  with step redirects_step [OF step.hyps(2)] server_step_inv [OF step.hyps(2)] row_step_link show ?case
    by (blast intro: rtranclp.rtrancl_into_rtrancl)
qed simp

lemma boot_redirects: "all_redirects_ok rows e (boot ls w)"
  by (simp add: all_redirects_ok_def)

lemma booted_run:
  assumes "store_inv rows e w0" and "\<forall>l\<in>set ls. accepts l = 1 \<and> launched l = []"
    and "(server_step e need_eof)\<^sup>*\<^sup>* (boot ls w0) c"
  shows "link_step\<^sup>*\<^sup>* (map_of (table rows e w0)) (map_of (table rows e (sv_world c))) \<and>
         server_inv rows e c \<and> all_redirects_ok rows e c"
  using run_links [OF assms(3) boot_inv [OF assms(1,2)] boot_redirects] by simp

lemma run_rows:
  assumes "(server_step e need_eof)\<^sup>*\<^sup>* c c'" and "server_inv rows e c"
  shows "set (table rows e (sv_world c)) \<subseteq> set (table rows e (sv_world c')) \<and> server_inv rows e c'"
  using assms
proof induction
  case (step c1 c2)
  then show ?case
    using server_step_inv [OF step.hyps(2)] row_step_mono by blast
qed simp

lemma demo_listeners: "\<forall>l\<in>set [demo_listener]. accepts l = 1 \<and> launched l = []"
  by (simp add: demo_listener_def)

text \<open>A session that has just been launched begins to handle the post.\<close>

definition demo_job :: "nat \<Rightarrow> string \<Rightarrow> string \<Rightarrow> string smap \<Rightarrow> job" where
  "demo_job i t path data =
     \<lparr>job_session = i, job_request = demo_post, job_rest = [],
      job_pending = Insert (Some ''urls.db'') [(2, ''http://a.b''), (1, t)] path data\<rparr>"

lemma demo_begins:
  assumes "running c" and "i < length (sv_sessions c)" and "\<not> busy c i" and "sv_sessions c ! i = new_session Plain []"
  shows "\<exists>t path data w. db w = db (sv_world c) \<and>
           server_step demo_env need_eof c (c\<lparr>sv_world := w, sv_jobs := sv_jobs c @ [demo_job i t path data]\<rparr>)"
proof -
  have new: "reads (new_session Plain []) = Suc 0" by (simp add: run_defs)
  have av: "sqlite_available (sql demo_env) (\<lambda>d. d)" by simp
  have url: "cstr ''http://a.b'' = ''http://a.b''" by (simp add: cstr_def NUL_def)
  have post: "req_method demo_post = Post" "req_target demo_post = ''/post.html''" by (simp_all add: demo_post_def)
  obtain t path data w where b: "begin_request demo_env demo_post (sv_world c) =
      Ok (Inr (Insert (Some ''urls.db'') [(2, ''http://a.b''), (1, t)] path data, w))"
    using begin_post_available [OF demo_env_ok av post demo_request_url demo_http, of "sv_world c"] by (auto simp: url)
  have "server_step demo_env need_eof c (c\<lparr>sv_world := w, sv_jobs := sv_jobs c @ [demo_job i t path data]\<rparr>)"
    unfolding demo_job_def
    by (rule Began [OF assms(1-3) _ b]) (simp_all add: assms(4) demo_admitted(1) new)
  moreover have "db w = db (sv_world c)" using begin_pending [OF demo_env_ok b] by simp
  ultimately show ?thesis by blast
qed

text \<open>Two sessions whose handlers of the same post have both begun.\<close>

lemma demo_both_begun:
  "\<exists>c t1 path1 data1 t2 path2 data2. (server_step demo_env need_eof)\<^sup>*\<^sup>* (boot [demo_listener] demo_world) c \<and>
     sv_crash c = None \<and> sv_jobs c = [demo_job 0 t1 path1 data1, demo_job 1 t2 path2 data2] \<and>
     sv_sessions c = [new_session Plain [], new_session Plain []] \<and> db (sv_world c) = db demo_world"
proof -
  let ?s = "new_session Plain []"
  obtain c0 l where c0: "(server_step demo_env need_eof)\<^sup>*\<^sup>* (boot [demo_listener] demo_world) c0" "running c0"
      "sv_listeners c0 = [l]" "accepts l = 1" "sv_sessions c0 = [?s]" "sv_world c0 = demo_world" "sv_jobs c0 = []"
    using demo_connected [of need_eof] by blast
  obtain c1 where c1: "(server_step demo_env need_eof)\<^sup>*\<^sup>* c0 c1" "running c1" "sv_sessions c1 = [?s, ?s]"
      "sv_world c1 = demo_world" "sv_jobs c1 = []"
    using connects [OF c0(2-4), of demo_env need_eof] c0(5-7) by auto
  obtain t1 path1 data1 w1 where 1: "db w1 = db demo_world"
    "server_step demo_env need_eof c1 (c1\<lparr>sv_world := w1, sv_jobs := [demo_job 0 t1 path1 data1]\<rparr>)"
    using demo_begins [OF c1(2), of 0 need_eof] c1(3-5) by (auto simp: busy_def)
  let ?c2 = "c1\<lparr>sv_world := w1, sv_jobs := [demo_job 0 t1 path1 data1]\<rparr>"
  have "running ?c2" using c1(2) by (simp add: running_def)
  from demo_begins [OF this, of 1 need_eof] obtain t2 path2 data2 w2 where 2: "db w2 = db w1"
    "server_step demo_env need_eof ?c2 (?c2\<lparr>sv_world := w2, sv_jobs := [demo_job 0 t1 path1 data1, demo_job 1 t2 path2 data2]\<rparr>)"
    using c1(3) by (auto simp: busy_def demo_job_def)
  have "(server_step demo_env need_eof)\<^sup>*\<^sup>* (boot [demo_listener] demo_world)
      (?c2\<lparr>sv_world := w2, sv_jobs := [demo_job 0 t1 path1 data1, demo_job 1 t2 path2 data2]\<rparr>)"
    using c0(1) c1(1) 1(2) 2(2) by (meson rtranclp.rtrancl_into_rtrancl rtranclp_trans)
  then show ?thesis
    using 1 2 c1 by (fastforce simp: running_def)
qed

text \<open>Then the first of them stores.\<close>

lemma demo_race:
  "\<exists>c j k c1 r. (server_step demo_env need_eof)\<^sup>*\<^sup>* (boot [demo_listener] demo_world) c \<and> j \<in> set (sv_jobs c) \<and>
     pending_url (job_pending j) = Some ''http://a.b'' \<and> server_step demo_env need_eof c c1 \<and>
     finish_request demo_env (job_request j) (job_pending j) (sv_world c) = Ok (sv_world c1) \<and>
     sent (sv_world c1) = sent (sv_world c) @ [r] \<and> res_status r \<noteq> 500 \<and> k \<in> set (sv_jobs c1) \<and>
     pending_url (job_pending k) = Some ''http://a.b''"
proof -
  obtain c t1 path1 data1 t2 path2 data2 where c:
    "(server_step demo_env need_eof)\<^sup>*\<^sup>* (boot [demo_listener] demo_world) c" "sv_crash c = None"
    "sv_jobs c = [] @ demo_job 0 t1 path1 data1 # [demo_job 1 t2 path2 data2]"
    "sv_sessions c = [new_session Plain [], new_session Plain []]" "db (sv_world c) = db demo_world"
    using demo_both_begun [of need_eof] by auto
  let ?j = "demo_job 0 t1 path1 data1" and ?k = "demo_job 1 t2 path2 data2"
  have "sqlite_available (sql demo_env) (\<lambda>d. d)" by simp
  then obtain w r where fin: "finish_request demo_env (job_request ?j) (job_pending ?j) (sv_world c) = Ok w"
    and r: "sent w = sent (sv_world c) @ [r]" "res_status r \<noteq> 500"
    using finish_insert_available [of demo_env "\<lambda>d. d" t1 "sv_world c" "''http://a.b''" demo_post path1 data1] c(5)
    by (auto simp: demo_job_def)
  have "reads (sv_sessions c ! job_session ?j) = Suc 0" using c(4) by (simp add: demo_job_def run_defs)
  note step = Resumed [OF c(2,3) this fin refl, where need_eof = need_eof]
  show ?thesis
    by (rule exI [of _ c], rule exI [of _ ?j], rule exI [of _ ?k], rule exI, rule exI [of _ r], intro conjI,
        rule c(1), simp add: c(3), simp add: demo_job_def, rule step)
       (use fin r c(3) in \<open>simp_all add: demo_job_def\<close>)
qed

section \<open>Properties\<close>

text \<open>
  C5: The server with handlers on several threads refines the abstract map of links: however the
  phases of handlers interleave, what the table goes through are steps that add one link under a
  fresh token, and every single step of the server is such a step or leaves the map alone.
\<close>

theorem server_refines_links:
  assumes "store_inv rows e w0" and "\<forall>l\<in>set ls. accepts l = 1 \<and> launched l = []"
    and "(server_step e need_eof)\<^sup>*\<^sup>* (boot ls w0) c" and "server_step e need_eof c c'"
  shows "link_step\<^sup>*\<^sup>* (map_of (table rows e w0)) (map_of (table rows e (sv_world c))) \<and>
         link_step (map_of (table rows e (sv_world c))) (map_of (table rows e (sv_world c')))"
  using booted_run [OF assms(1-3)] server_step_inv [OF assms(4)] row_step_link by blast

theorem server_refines_links_witness:
  "\<exists>c c'. (server_step demo_env (\<lambda>_. False))\<^sup>*\<^sup>* (boot [demo_listener] demo_world) c \<and>
     server_step demo_env (\<lambda>_. False) c c' \<and> map_of (db (sv_world c) ''urls.db'') = Map.empty \<and>
     link_step Map.empty (map_of (db (sv_world c') ''urls.db'')) \<and> db (sv_world c') ''urls.db'' \<noteq> []"
proof -
  obtain c s where run: "(server_step demo_env (\<lambda>_. False))\<^sup>*\<^sup>* (boot [demo_listener] demo_world) c"
    and c: "running c" "sv_sessions c = [s]" "sv_jobs c = []" "0 < reads s" "db (sv_world c) ''urls.db'' = []"
    using demo_served by blast
  obtain n where n: "reads s = Suc n" using c(4) by (cases "reads s") auto
  obtain w where w: "handle_request demo_env demo_post (sv_world c) = Ok w" "db w ''urls.db'' \<noteq> []"
    using demo_post_stores [OF c(5)] by blast
  let ?s = "after_request (drop (length (sent (sv_world c))) (sent w)) (s\<lparr>reads := n, inbuf := []\<rparr>)"
  have "on_read demo_env Success demo_post (s\<lparr>reads := n, inbuf := []\<rparr>) (sv_world c) = Ok (?s, w)"
    using w(1) by (simp add: on_read_def)
  moreover have "admits s Success demo_post"
    using demo_admitted(2) [OF _ c(4)] server_run_inv [OF run demo_boot_inv] c(2) by (auto simp: server_inv_def)
  ultimately have "session_move demo_env (\<lambda>_. False) (s, sv_world c) (note_read Success demo_post ?s, w)"
    by (rule ReadDone [OF n])
  then have step: "server_step demo_env (\<lambda>_. False) c
      (c\<lparr>sv_sessions := (sv_sessions c)[0 := note_read Success demo_post ?s], sv_world := w\<rparr>)"
    using c by (intro Moved) (simp_all add: busy_def)
  let ?c' = "c\<lparr>sv_sessions := (sv_sessions c)[0 := note_read Success demo_post ?s], sv_world := w\<rparr>"
  have "link_step (map_of (db (sv_world c) ''urls.db'')) (map_of (db (sv_world ?c') ''urls.db''))"
    using server_refines_links [OF demo_store_inv demo_listeners run step] by simp
  then show ?thesis
    using run step c(5) w(2) by (intro exI [of _ c] exI [of _ ?c']) simp
qed

text \<open>
  C6: No open redirect, for the whole server and with handlers on several threads: in every session,
  every redirect handed to the stream or waiting leads to the fixed video or to a web URL that is
  stored under the token its request asked for.
\<close>

theorem server_redirects:
  assumes "store_inv rows e w0" and "\<forall>l\<in>set ls. accepts l = 1 \<and> launched l = []"
    and "(server_step e need_eof)\<^sup>*\<^sup>* (boot ls w0) c"
  shows "\<forall>s\<in>set (sv_sessions c). list_all2
           (\<lambda>req r. res_status r \<noteq> 301 \<or> smap_get (res_fields r) ''Location'' = Some rickroll \<or>
              (\<exists>u. (cstr (drop 1 (req_target req)), u) \<in> set (table rows e (sv_world c)) \<and> http_url u \<and>
                   smap_get (res_fields r) ''Location'' = Some u))
           (requests s) (started s @ drop 1 (items s))"
proof
  fix s
  assume s: "s \<in> set (sv_sessions c)"
  have inv: "server_inv rows e c" "all_redirects_ok rows e c"
    using booted_run [OF assms] by simp_all
  then have tab: "table_ok (table rows e (sv_world c))"
    by (simp add: server_inv_def store_inv_def)
  have "list_all2 (redirect_ok (table rows e (sv_world c))) (requests s) (started s @ drop 1 (items s))"
    using inv(2) s by (simp add: all_redirects_ok_def redirects_ok_def history_def)
  then show "list_all2
           (\<lambda>req r. res_status r \<noteq> 301 \<or> smap_get (res_fields r) ''Location'' = Some rickroll \<or>
              (\<exists>u. (cstr (drop 1 (req_target req)), u) \<in> set (table rows e (sv_world c)) \<and> http_url u \<and>
                   smap_get (res_fields r) ''Location'' = Some u))
           (requests s) (started s @ drop 1 (items s))"
    by (rule list_all2_mono) (use table_ok_url [OF tab] in \<open>auto simp: redirect_ok_def leads_to_def\<close>)
qed

theorem server_redirects_witness:
  "\<exists>c s. (server_step demo_env (\<lambda>_. False))\<^sup>*\<^sup>* (boot [demo_listener] demo_world) c \<and> sv_sessions c = [s] \<and>
     requests s = [demo_get ''x''] \<and> (\<exists>r. started s @ drop 1 (items s) = [r] \<and>
       (res_status r \<noteq> 301 \<or> smap_get (res_fields r) ''Location'' = Some rickroll \<or>
        (\<exists>u. http_url u \<and> smap_get (res_fields r) ''Location'' = Some u)))"
proof -
  obtain c s where run: "(server_step demo_env (\<lambda>_. False))\<^sup>*\<^sup>* (boot [demo_listener] demo_world) c"
    and s: "sv_sessions c = [s]" "requests s = [demo_get ''x'']"
    using demo_served by blast
  from server_redirects [OF demo_store_inv demo_listeners run] run s show ?thesis
    by (auto simp: list_all2_Cons1)
qed

text \<open>
  C12: What a lookup finds that finishes later, on whatever thread: a handler that looks a token up and
  makes its call of SQLite after any further steps of the server returns, and redirects by the result of
  that call. A row redirects to the URL of the token, which is the one the token had at any earlier
  moment it was stored; a call that is done without a row redirects to the fixed video, and then the
  token has not been stored by then; any other result, such as a lock held by the insertion of another
  thread, redirects to the video too, whether the token is stored or not.
\<close>

theorem concurrent_lookup:
  assumes "store_inv rows e w0" and "\<forall>l\<in>set ls. accepts l = 1 \<and> launched l = []"
    and "(server_step e need_eof)\<^sup>*\<^sup>* (boot ls w0) c" and "(server_step e need_eof)\<^sup>*\<^sup>* c c'"
    and "req_method req = Get" and "req_target req = CHR ''/'' # t" and "is_token t"
    and "begin_request e req w = Ok (Inr (p, w1))"
  shows "\<exists>h binds w2 rc. p = Lookup h binds \<and> finish_request e req p (sv_world c') = Ok w2 \<and>
           rc = fst (sqlite3_step (sql e) (db (sv_world c')) h select_sql binds) \<and>
           ((\<exists>u. rc = SQLITE_ROW \<and> map_of (table rows e (sv_world c')) t = Some u \<and>
                 map_of (table rows e (sv_world c)) t \<in> {None, Some u} \<and>
                 sent w2 = sent (sv_world c') @ [redirect_permanent (beast_version e) req u]) \<or>
            rc = SQLITE_DONE \<and> map_of (table rows e (sv_world c')) t = None \<and>
              map_of (table rows e (sv_world c)) t = None \<and>
              sent w2 = sent (sv_world c') @ [redirect_permanent (beast_version e) req rickroll] \<or>
            rc \<notin> {SQLITE_ROW, SQLITE_DONE} \<and>
              sent w2 = sent (sv_world c') @ [redirect_permanent (beast_version e) req rickroll])"
proof -
  have env: "env_ok rows e" and sq: "sqlite_ok (sql e) rows"
    using assms(1) by (simp_all add: store_inv_def env_ok_def)
  have inv: "server_inv rows e c" using booted_run [OF assms(1-3)] by simp
  note later = server_run_inv [OF assms(4) inv]
  then have tab: "table_ok (table rows e (sv_world c'))"
    by (simp add: server_inv_def store_inv_def)
  have pend: "pending_ok e req p" using begin_pending [OF env assms(8)] by simp
  then obtain h binds where p: "p = Lookup h binds" using assms(5) by (cases p) auto
  have kept: "map_of (table rows e (sv_world c)) t \<in> {None, map_of (table rows e (sv_world c')) t}"
    using later by (cases "map_of (table rows e (sv_world c)) t") (simp, metis domI insertCI map_le_def)
  have "cstr (drop 1 (req_target req)) = t"
    using assms(6) cstr_token [OF assms(7)] by simp
  from finish_lookup_result [OF sq tab pend [unfolded p] this refl] kept p show ?thesis
    by (elim exE conjE disjE) fastforce+
qed

theorem concurrent_lookup_witness:
  "\<exists>c t p w2. (server_step demo_env (\<lambda>_. False))\<^sup>*\<^sup>* (boot [demo_listener] (full_world t)) c \<and>
     finish_request demo_env (demo_get (CHR ''/'' # t)) p (sv_world c) = Ok w2 \<and>
     sent w2 = [redirect_permanent (beast_version demo_env) (demo_get (CHR ''/'' # t)) ''http://a.b'']"
proof -
  obtain t where t: "is_token t" using demo_post_returns by blast
  have av: "sqlite_available (sql demo_env) (\<lambda>d. d)" by simp
  have get: "req_method (demo_get (CHR ''/'' # t)) = Get" "req_target (demo_get (CHR ''/'' # t)) = CHR ''/'' # t"
    by (simp_all add: demo_get_def)
  obtain w1 where p: "begin_request demo_env (demo_get (CHR ''/'' # t)) (full_world t) =
      Ok (Inr (Lookup (Some ''urls.db'') [(1, t)], w1))"
    using begin_lookup_available [OF av get t] by auto
  let ?c = "boot [demo_listener] (full_world t)" and ?p = "Lookup (Some ''urls.db'') [(1, t)]"
  have run: "(server_step demo_env (\<lambda>_. False))\<^sup>*\<^sup>* ?c ?c" by simp
  have row: "fst (sqlite3_step (sql demo_env) (db (sv_world ?c)) (Some ''urls.db'') select_sql [(1, t)]) = SQLITE_ROW"
    by (simp add: sqlite_ref_select full_world_def)
  from concurrent_lookup [OF full_store_inv [OF t] demo_listeners run run get t p] row
  obtain w2 where "finish_request demo_env (demo_get (CHR ''/'' # t)) ?p (sv_world ?c) = Ok w2"
    "sent w2 = sent (full_world t) @ [redirect_permanent (beast_version demo_env) (demo_get (CHR ''/'' # t)) ''http://a.b'']"
    by (auto simp: full_world_def SQLITE_ROW_def SQLITE_DONE_def)
  moreover have "sent (full_world t) = []" by (simp add: full_world_def demo_world_def)
  ultimately show ?thesis
    using run by (intro exI [of _ ?c] exI [of _ t] exI [of _ ?p] exI [of _ w2]) simp
qed

text \<open>
  C13: Of two posts of the same URL that run at the same time, at most one is accepted: when one has
  been answered with anything but a server error, its link is stored, and every handler of the same
  URL that makes its call of SQLite later is answered with a server error and changes nothing, also
  if it had begun before.
\<close>

theorem concurrent_posts:
  assumes "store_inv rows e w0" and "\<forall>l\<in>set ls. accepts l = 1 \<and> launched l = []"
    and "(server_step e need_eof)\<^sup>*\<^sup>* (boot ls w0) c"
    and "j \<in> set (sv_jobs c)" and "pending_url (job_pending j) = Some u"
    and "server_step e need_eof c c1"
    and "finish_request e (job_request j) (job_pending j) (sv_world c) = Ok (sv_world c1)"
    and "sent (sv_world c1) = sent (sv_world c) @ [r]" and "res_status r \<noteq> 500"
    and "(server_step e need_eof)\<^sup>*\<^sup>* c1 c2" and "k \<in> set (sv_jobs c2)" and "pending_url (job_pending k) = Some u"
  shows "u \<in> snd ` set (table rows e (sv_world c1)) \<and>
         (\<exists>w3 r3. finish_request e (job_request k) (job_pending k) (sv_world c2) = Ok w3 \<and>
            sent w3 = sent (sv_world c2) @ [r3] \<and> res_status r3 = 500 \<and>
            table rows e w3 = table rows e (sv_world c2))"
proof -
  have env: "env_ok rows e" and sq: "sqlite_ok (sql e) rows"
    using assms(1) by (simp_all add: store_inv_def env_ok_def)
  have inv: "server_inv rows e c" using booted_run [OF assms(1-3)] by simp
  have inv1: "server_inv rows e c1" using server_step_inv [OF assms(6) inv] by simp
  have inv2: "server_inv rows e c2" using server_run_inv [OF assms(10) inv1] by simp
  have j: "pending_ok e (job_request j) (job_pending j)"
    using inv assms(4) by (simp add: server_inv_def jobs_ok_def)
  have k: "pending_ok e (job_request k) (job_pending k)"
    using inv2 assms(11) by (simp add: server_inv_def jobs_ok_def)
  have stored: "u \<in> snd ` set (table rows e (sv_world c1))"
    using finish_insert_status [OF sq j assms(5,7,8)] assms(9) by auto
  then have later: "u \<in> snd ` set (table rows e (sv_world c2))"
    using run_rows [OF assms(10) inv1] by blast
  obtain w3 r3 where fin: "finish_request e (job_request k) (job_pending k) (sv_world c2) = Ok w3"
    and r3: "sent w3 = sent (sv_world c2) @ [r3]"
    using finish_effect [OF env k, of "sv_world c2"] by (auto simp: replied_def)
  have "res_status r3 = 500 \<and> table rows e w3 = table rows e (sv_world c2)"
    using finish_insert_status [OF sq k assms(12) fin r3] later by (auto split: if_splits)
  with stored fin r3 show ?thesis by blast
qed

theorem concurrent_posts_witness:
  "\<exists>c1 c2 k w3 r3. (server_step demo_env (\<lambda>_. False))\<^sup>*\<^sup>* c1 c2 \<and> k \<in> set (sv_jobs c2) \<and>
     ''http://a.b'' \<in> snd ` set (db (sv_world c1) ''urls.db'') \<and>
     finish_request demo_env (job_request k) (job_pending k) (sv_world c2) = Ok w3 \<and>
     sent w3 = sent (sv_world c2) @ [r3] \<and> res_status r3 = 500"
proof -
  obtain c j k c1 r where "(server_step demo_env (\<lambda>_. False))\<^sup>*\<^sup>* (boot [demo_listener] demo_world) c"
    "j \<in> set (sv_jobs c)" "pending_url (job_pending j) = Some ''http://a.b''"
    "server_step demo_env (\<lambda>_. False) c c1"
    "finish_request demo_env (job_request j) (job_pending j) (sv_world c) = Ok (sv_world c1)"
    "sent (sv_world c1) = sent (sv_world c) @ [r]" "res_status r \<noteq> 500"
    and k: "k \<in> set (sv_jobs c1)" "pending_url (job_pending k) = Some ''http://a.b''"
    using demo_race by blast
  from concurrent_posts [OF demo_store_inv demo_listeners this(1-7) rtranclp.rtrancl_refl k] obtain w3 r3
    where "''http://a.b'' \<in> snd ` set (db (sv_world c1) ''urls.db'')"
      "finish_request demo_env (job_request k) (job_pending k) (sv_world c1) = Ok w3"
      "sent w3 = sent (sv_world c1) @ [r3]" "res_status r3 = 500"
    unfolding demo_env_simps by blast
  with k(1) show ?thesis by (intro exI [of _ c1] exI [of _ k] exI [of _ w3] exI [of _ r3]) simp
qed

end
