(* ===== verification/Timeouts.thy ===== *)
theory Timeouts
  imports Session
begin

text \<open>
  The time limits of a session (\<^verbatim>\<open>expires_after\<close> in \<^verbatim>\<open>src/session.cpp\<close> and
  \<^verbatim>\<open>include/session.hpp\<close>): how long a session lasts, when it is at rest after its client has
  stopped sending, what has been delivered then, and what is left for a response to a late request.
\<close>

section \<open>A bound on the time limits\<close>

text \<open>
  A bound \<open>b\<close> holds when it is not before the clock, the time set on the stream or the time limit
  of an operation in flight.
\<close>

definition limited :: "nat option \<Rightarrow> nat \<Rightarrow> bool" where
  "limited limit b \<longleftrightarrow> (\<exists>d. limit = Some d \<and> d \<le> b)"

definition held :: "session \<Rightarrow> nat \<Rightarrow> bool" where
  "held s b \<longleftrightarrow> clock s \<le> b \<and> limited (expiry s) b \<and>
     (0 < handshakes s \<longrightarrow> limited (handshake_due s) b) \<and> (0 < reads s \<longrightarrow> limited (read_due s) b) \<and>
     (writes s \<noteq> [] \<longrightarrow> limited (write_due s) b) \<and> (0 < shutdowns s \<longrightarrow> limited (shutdown_due s) b)"

lemma limited_mono: "limited l b \<Longrightarrow> b \<le> b' \<Longrightarrow> limited l b'"
  by (auto simp: limited_def)

lemma held_mono: "held s b \<Longrightarrow> b \<le> b' \<Longrightarrow> held s b'"
  by (auto simp: held_def intro: limited_mono)

lemma limited_time_limit: "held s b \<Longrightarrow> limited (time_limit s) b"
  by (auto simp: held_def limited_def time_limit_def)

lemma held_completed [simp]:
  "held s b \<Longrightarrow> reads s = Suc n \<Longrightarrow> held (s\<lparr>reads := n\<rparr>) b"
  "held s b \<Longrightarrow> handshakes s = Suc n \<Longrightarrow> held (s\<lparr>handshakes := n\<rparr>) b"
  "held s b \<Longrightarrow> shutdowns s = Suc n \<Longrightarrow> held (s\<lparr>shutdowns := n\<rparr>) b"
  "held s b \<Longrightarrow> writes s = xs @ m # ys \<Longrightarrow> held (s\<lparr>writes := xs @ ys\<rparr>) b"
  by (auto simp: held_def)

lemma held_same [simp]:
  "held (log_fail ec f s) b = held s b" "held (note_read ec req s) b = held s b"
  "held (note_write ec close m s) b = held s b" "held (s\<lparr>inbuf := buf\<rparr>) b = held s b"
  "held (s\<lparr>read_end := x\<rparr>) b = held s b" "held (s\<lparr>write_end := x\<rparr>) b = held s b"
  "held (s\<lparr>items := xs\<rparr>) b = held s b" "held (s\<lparr>errs := es\<rparr>) b = held s b"
  "held (s\<lparr>requests := rs\<rparr>) b = held s b" "held (s\<lparr>finished := xs\<rparr>) b = held s b"
  by (auto simp: held_def log_fail_def note_read_def note_write_def)

lemma held_start_write: "held s b \<Longrightarrow> held (start_write m s) b"
  using limited_time_limit [of s b] by (auto simp: held_def start_write_def)

lemma held_push: "held s b \<Longrightarrow> held (queue_push m s) b"
  by (auto simp: queue_push_def Let_def intro: held_start_write)

lemma held_pushes: "held s b \<Longrightarrow> held (fold queue_push ms s) b"
  by (induction ms arbitrary: s) (auto intro: held_push)

lemma held_pop: "held s b \<Longrightarrow> queue_on_write s = Ok (f, s') \<Longrightarrow> held s' b"
  by (auto simp: queue_on_write_def Let_def intro: held_start_write split: if_splits)

lemma held_extended:
  assumes "held s b" and "clock s + seconds 30 \<le> b"
  shows "held (do_read s) b" and "held (do_eof s) b"
  using assms
  by (auto simp: held_def limited_def do_read_def do_eof_defs time_limit_def split: stream_kind.split)

lemma held_plain_eof: "held s b \<Longrightarrow> kind s = Plain \<Longrightarrow> held (do_eof s) b"
  by (auto simp: held_def do_eof_defs)

section \<open>How often a session extends its time\<close>

text \<open>
  Each request lets the session read once more; a TLS session also has a handshake and at most two
  shutdowns.
\<close>

definition extensions :: "session \<Rightarrow> nat" where
  "extensions s =
     length (requests s) + (if 0 < reads s \<or> 0 < handshakes s \<or> read_end s then 1 else 0) +
     (case kind s of
        Plain \<Rightarrow> 0
      | Ssl \<Rightarrow> (if handshakes s = 0 then 1 else 0) + (if read_end s then 1 else 0) + (if write_end s then 1 else 0))"

text \<open>A move that leaves the time set on the stream alone, and one that sets it.\<close>

definition kept :: "nat \<Rightarrow> session \<Rightarrow> session \<Rightarrow> bool" where
  "kept b s s' \<longleftrightarrow> held s' b \<and> extensions s \<le> extensions s'"

definition extended :: "nat \<Rightarrow> session \<Rightarrow> session \<Rightarrow> bool" where
  "extended b s s' \<longleftrightarrow> (\<forall>b'. b \<le> b' \<longrightarrow> clock s + seconds 30 \<le> b' \<longrightarrow> held s' b') \<and>
     extensions s < extensions s' \<and> (read_end s \<longrightarrow> kind s = Ssl \<and> \<not> write_end s \<and> write_end s')"

definition timed_ok :: "session \<Rightarrow> bool" where
  "timed_ok s \<longleftrightarrow> (0 < handshakes s \<longrightarrow> kind s = Ssl)"

lemma clock_kind_simps [simp]:
  "clock (do_read s) = clock s" "kind (do_read s) = kind s"
  "clock (do_eof s) = clock s" "kind (do_eof s) = kind s"
  "clock (log_fail ec f s) = clock s" "kind (log_fail ec f s) = kind s"
  "clock (queue_push m s) = clock s"
  "clock (note_read ec req s) = clock s" "kind (note_read ec req s) = kind s"
  "clock (note_write ec close m s) = clock s" "kind (note_write ec close m s) = kind s"
  by (simp_all add: do_read_def do_eof_defs log_fail_def queue_push_def start_write_def note_read_def
      note_write_def split: stream_kind.split)

lemma clock_kind_pushes [simp]:
  "clock (fold queue_push ms s) = clock s" "kind (fold queue_push ms s) = kind s"
  by (induction ms arbitrary: s) simp_all

lemma clock_kind_after_request [simp]:
  "clock (after_request rs s) = clock s" "kind (after_request rs s) = kind s"
  by (simp_all add: after_request_def Let_def)

lemma clock_kind_pop:
  "queue_on_write s = Ok (f, s') \<Longrightarrow> clock s' = clock s \<and> kind s' = kind s"
  by (auto simp: queue_on_write_def start_write_def Let_def split: if_splits)

lemma held_after_request:
  assumes "held s b"
  shows "length (items s) + length rs \<ge> queue_limit \<Longrightarrow> held (after_request rs s) b"
    and "clock s + seconds 30 \<le> b \<Longrightarrow> held (after_request rs s) b"
  using held_pushes [OF assms, of rs] held_extended(1) [OF held_pushes [OF assms, of rs]]
  by (auto simp: after_request_def is_full_def http_queue.pushes_waiting Let_def)

lemma request_times:
  assumes inv: "session_inv ver s" and n: "reads s = Suc n" and h: "held s b"
    and s': "s' = note_read Success req (after_request [r] (s\<lparr>reads := n, inbuf := buf\<rparr>))"
  shows "kept b s s' \<or> extended b s s'"
proof -
  let ?s = "s\<lparr>reads := n, inbuf := buf\<rparr>"
  have s: "n = 0" "handshakes s = 0" "\<not> read_end s"
    using inv n by (auto simp: session_inv_def flow_ok_def)
  have h1: "held ?s b" using h n by simp
  have same: "requests s' = requests s @ [req]" "kind s' = kind s" "handshakes s' = 0" "read_end s' = read_end s"
    "write_end s' = write_end s"
    using s by (simp_all add: s' note_read_def)
  show ?thesis
  proof (cases "queue_limit \<le> length (items s) + 1")
    case True
    have "extensions s \<le> extensions s'"
      using n s same by (auto simp: extensions_def split: stream_kind.split)
    then show ?thesis using held_after_request(1) [OF h1, of "[r]"] True by (simp add: kept_def s')
  next
    case False
    then have "reads s' = 1" using s by (simp add: s' note_read_def)
    then have "extensions s < extensions s'"
      using n s same by (auto simp: extensions_def split: stream_kind.split)
    moreover have "held s' b'" if "b \<le> b'" "clock s + seconds 30 \<le> b'" for b'
      using held_after_request(2) [OF held_mono [OF h1 that(1)], of "[r]"] that(2) by (simp add: s')
    ultimately show ?thesis using s by (simp add: extended_def)
  qed
qed

lemma eof_held:
  assumes "held s b"
  obtains "kind s = Plain" "held (do_eof s) b"
  | "kind s = Ssl" "\<forall>b'. b \<le> b' \<longrightarrow> clock s + seconds 30 \<le> b' \<longrightarrow> held (do_eof s) b'"
  using assms held_plain_eof [OF assms] held_extended(2) [OF held_mono [OF assms]]
  by (cases "kind s") auto

lemma read_times:
  assumes env: "env_ok rows e" and inv: "session_inv ver s" and n: "reads s = Suc n" and h: "held s b"
    and ok: "on_read e ec req (s\<lparr>reads := n, inbuf := buf\<rparr>) w = Ok (s1, w')"
  shows "kept b s (note_read ec req s1) \<or> extended b s (note_read ec req s1)"
  using on_read_cases [OF env ok]
proof (elim disjE conjE exE)
  fix r
  assume "ec = Success" "s1 = after_request [r] (s\<lparr>reads := n, inbuf := buf\<rparr>)"
  then show ?thesis using request_times [OF inv n h] by blast
next
  let ?s = "s\<lparr>reads := n, inbuf := buf\<rparr>"
  assume ec: "ec \<noteq> Success" and s1: "s1 = do_eof ?s"
  have s: "handshakes s = 0" "\<not> read_end s" using inv n by (auto simp: session_inv_def flow_ok_def)
  have "held ?s b" using h n by simp
  then show ?thesis
    by (cases rule: eof_held) (use ec s1 s n in \<open>auto simp: kept_def extended_def extensions_def note_read_def\<close>)
next
  assume "ec \<noteq> Success" "s1 = log_fail ec ''read'' (s\<lparr>reads := n, inbuf := buf\<rparr>)"
  then show ?thesis
    using h n by (auto simp: kept_def extensions_def note_read_def log_fail_def split: stream_kind.split)
qed

lemma write_times:
  assumes inv: "session_inv ver s" and m: "writes s = xs @ m # ys" and h: "held s b" and t: "timed_ok s"
    and ok: "on_write close ec (s\<lparr>writes := xs @ ys\<rparr>) = Ok s1"
  shows "kept b s (note_write ec close m s1) \<or> extended b s (note_write ec close m s1)"
proof -
  let ?s = "s\<lparr>writes := xs @ ys\<rparr>"
  note fl = write_in_flight [OF inv m]
  have ne: "items s \<noteq> []" using fl(4) by (metis list.distinct(1))
  have hs: "handshakes s = 0" using inv ne by (auto simp: session_inv_def flow_ok_def)
  have h1: "held ?s b" using h m by simp
  consider "s1 = log_fail ec ''write'' ?s" "ec \<noteq> Success" | "s1 = do_eof ?s" "close" "ec = Success"
    | s2 where "queue_on_write ?s = Ok (queue_limit \<le> length (items s), s2)" "ec = Success" "\<not> close"
        "s1 = (if queue_limit \<le> length (items s) then do_read s2 else s2)" "reads s2 = reads s"
        "handshakes s2 = handshakes s" "requests s2 = requests s" "read_end s2 = read_end s" "write_end s2 = write_end s"
    using ok queue_on_write_eq [of ?s] ne by (cases "ec = Success"; cases close) (auto simp: on_write_def)
  then show ?thesis
  proof cases
    case 1
    then show ?thesis
      using h1 fl(1) by (auto simp: kept_def extensions_def note_write_def log_fail_def split: stream_kind.split)
  next
    case 2
    from h1 show ?thesis
      by (cases rule: eof_held) (use 2 fl(1) hs in \<open>auto simp: kept_def extended_def extensions_def note_write_def\<close>)
  next
    case 3
    note ck = clock_kind_pop [OF 3(1)]
    have h2: "held s2 b" using held_pop [OF h1 3(1)] .
    show ?thesis
    proof (cases "queue_limit \<le> length (items s)")
      case True
      then have full: "reads s = 0" "\<not> read_end s"
        using inv by (auto simp: session_inv_def flow_ok_def)
      have "held s1 b'" if "b \<le> b'" "clock s + seconds 30 \<le> b'" for b'
        using held_extended(1) [OF held_mono [OF h2 that(1)]] that(2) ck 3(4) True by simp
      moreover have "extensions s < extensions (note_write ec close m s1)"
        using 3 True full hs ck by (auto simp: extensions_def note_write_def split: stream_kind.split)
      ultimately show ?thesis using full by (simp add: extended_def)
    next
      case False
      then show ?thesis
        using 3 ck h2 by (auto simp: kept_def extensions_def note_write_def split: stream_kind.split)
    qed
  qed
qed

lemma handshake_times:
  assumes inv: "session_inv ver s" and n: "handshakes s = Suc n" and h: "held s b" and t: "timed_ok s"
    and s': "s' = (let s1 = on_handshake ec used (s\<lparr>handshakes := n\<rparr>) in if ec = Success then s1 else s1\<lparr>read_end := True\<rparr>)"
  shows "kept b s s' \<or> extended b s s'"
proof -
  have s: "n = 0" "reads s = 0" "\<not> read_end s" "kind s = Ssl"
    using inv t n by (auto simp: session_inv_def flow_ok_def timed_ok_def)
  show ?thesis
  proof (cases "ec = Success")
    case True
    let ?s = "s\<lparr>handshakes := n, inbuf := drop used (inbuf s)\<rparr>"
    have "held ?s b" using h n by simp
    then have "held (do_read ?s) b'" if "b \<le> b'" "clock s + seconds 30 \<le> b'" for b'
      using held_extended(1) [OF held_mono [OF _ that(1)]] that(2) by simp
    then show ?thesis
      using True s n s' by (auto simp: extended_def extensions_def on_handshake_def Let_def)
  next
    case False
    then show ?thesis
      using h n s s' by (auto simp: kept_def extensions_def on_handshake_def log_fail_def)
  qed
qed

lemma move_times:
  assumes "session_move e need_eof (s, w) (s', w')" and "env_ok rows e" and "session_inv ver s"
    and "held s b" and "timed_ok s"
  shows "kept b s s' \<or> extended b s s'"
  using assms(1)
proof cases
  case (ReadDone n ec req buf s1)
  then show ?thesis using read_times [OF assms(2-3) ReadDone(2) assms(4) ReadDone(3)] by simp
next
  case (WriteDone xs m ys ec s1)
  then show ?thesis using write_times [OF assms(3) WriteDone(3) assms(4,5)] by simp
next
  case (HandshakeDone n ec used)
  then show ?thesis using handshake_times [OF assms(3) _ assms(4,5)] by simp
next
  case (ShutdownDone n ec)
  then show ?thesis
    using assms(4) by (auto simp: kept_def extensions_def on_shutdown_def log_fail_def split: stream_kind.split)
qed

section \<open>Reachable sessions\<close>

text \<open>The bound matters as long as something is in flight.\<close>

definition bounded :: "session \<Rightarrow> nat \<Rightarrow> bool" where
  "bounded s b \<longleftrightarrow> session_work s = 0 \<or> held s b"

definition ended_by :: "session \<Rightarrow> session \<Rightarrow> bool" where
  "ended_by s s' \<longleftrightarrow> kind s' = kind s \<and> clock s \<le> clock s' \<and> handshakes s' \<le> handshakes s \<and>
     (read_end s \<longrightarrow> read_end s') \<and> (write_end s \<longrightarrow> write_end s')"

lemma move_needs_work: "session_move e need_eof c c' \<Longrightarrow> 0 < session_work (fst c)"
  by (erule session_move.cases) (auto simp: session_work_def)

lemma pop_ended_by: "queue_on_write s = Ok (f, s') \<Longrightarrow> ended_by s s'"
  by (auto simp: queue_on_write_def start_write_def ended_by_def Let_def split: if_splits)

lemma on_write_ended_by:
  assumes "on_write close ec s = Ok s'"
  shows "clock s' = clock s \<and> ended_by s s'"
proof -
  consider "s' = log_fail ec ''write'' s" | "s' = do_eof s"
    | f s1 where "queue_on_write s = Ok (f, s1)" "s' = s1 \<or> s' = do_read s1"
    using assms by (auto simp: on_write_def res_simps split: if_splits)
  then show ?thesis
  proof cases
    case 3
    then show ?thesis
      using pop_ended_by [OF 3(1)] clock_kind_pop [OF 3(1)] by (elim disjE) (simp_all add: ended_by_def)
  qed (simp_all add: ended_by_def)
qed

lemma move_ended_by:
  assumes "session_move e need_eof (s, w) (s', w')" and "env_ok rows e"
  shows "clock s' = clock s \<and> ended_by s s'"
  using assms(1)
proof cases
  case (ReadDone n ec req buf s1)
  have "clock s1 = clock s \<and> ended_by s s1"
    using on_read_cases [OF assms(2) ReadDone(3)] by (elim disjE exE conjE) (simp_all add: ended_by_def)
  then show ?thesis using ReadDone(1) by (simp add: ended_by_def note_read_def)
next
  case (WriteDone xs m ys ec s1)
  then show ?thesis
    using on_write_ended_by [OF WriteDone(4)] by (auto simp: ended_by_def note_write_def)
qed (auto simp: ended_by_def on_handshake_def on_shutdown_def log_fail_def Let_def)

lemma work_clock [simp]: "session_work (s\<lparr>clock := t\<rparr>) = session_work s" "extensions (s\<lparr>clock := t\<rparr>) = extensions s"
  by (simp_all add: session_work_def extensions_def)

lemma elapsed_bounded: "bounded s b \<Longrightarrow> in_time s t \<Longrightarrow> clock s \<le> t \<Longrightarrow> bounded (s\<lparr>clock := t\<rparr>) b"
proof -
  assume b: "bounded s b" and t: "in_time s t"
  have lim: "t \<le> b" if "limited l b" "within l t" for l
    using that by (auto simp: limited_def within_def)
  have "t \<le> b" if h: "held s b" and w: "session_work s \<noteq> 0"
  proof -
    from w consider "0 < handshakes s" | "0 < reads s" | "writes s \<noteq> []" | "0 < shutdowns s"
      by (auto simp: session_work_def)
    then show ?thesis
      using h t by cases (auto simp: held_def in_time_def intro: lim)
  qed
  then show ?thesis
    using b by (cases "session_work s = 0") (simp_all add: bounded_def held_def)
qed

definition timed_inv :: "session \<Rightarrow> bool" where
  "timed_inv s \<longleftrightarrow> timed_ok s \<and> bounded s (seconds 30 * extensions s) \<and> bounded s (clock s + seconds 30)"

lemma timed_launched: "timed_inv (new_session k buf)"
  by (cases k)
     (simp_all add: timed_inv_def timed_ok_def bounded_def held_def limited_def extensions_def run_defs time_limit_def)

lemma timed_by_times:
  assumes times: "\<And>b. held s b \<Longrightarrow> kept b s s' \<or> extended b s s'"
    and mv: "clock s' = clock s" "ended_by s s'" and inv: "timed_inv s" and work: "0 < session_work s"
  shows "timed_inv s'"
proof -
  have ok: "timed_ok s" and h: "held s (seconds 30 * extensions s)" "held s (clock s + seconds 30)"
    using inv work by (auto simp: timed_inv_def bounded_def)
  have late: "clock s + seconds 30 \<le> seconds 30 * extensions s'" if "extensions s < extensions s'"
  proof -
    have "clock s + seconds 30 \<le> seconds 30 * extensions s + seconds 30" using h(1) by (simp add: held_def)
    also have "\<dots> = seconds 30 * (extensions s + 1)" by simp
    also have "\<dots> \<le> seconds 30 * extensions s'" using that by (intro mult_le_mono2) simp
    finally show ?thesis .
  qed
  have "held s' (seconds 30 * extensions s')"
    using times [OF h(1)]
  proof
    assume "kept (seconds 30 * extensions s) s s'"
    then show ?thesis by (auto simp: kept_def elim!: held_mono)
  next
    assume "extended (seconds 30 * extensions s) s s'"
    then show ?thesis using late by (simp add: extended_def)
  qed
  moreover have "held s' (clock s' + seconds 30)"
    using times [OF h(2)] mv by (auto simp: kept_def extended_def)
  moreover have "timed_ok s'" using ok mv(2) by (auto simp: timed_ok_def ended_by_def)
  ultimately show ?thesis by (simp add: timed_inv_def bounded_def)
qed

lemma timed_move:
  assumes mv: "session_move e need_eof (s, w) (s', w')" and env: "env_ok rows e"
    and inv: "session_inv ver s" and t: "timed_inv s"
  shows "timed_inv s'"
proof (rule timed_by_times)
  show "kept b s s' \<or> extended b s s'" if "held s b" for b
    using move_times [OF mv env inv that] t by (simp add: timed_inv_def)
qed (use move_ended_by [OF mv env] move_needs_work [OF mv] t in simp_all)

lemma timed_request:
  assumes inv: "session_inv ver s" and n: "reads s = Suc n" and t: "timed_inv s"
  shows "timed_inv (note_read Success req (after_request [r] (s\<lparr>reads := n, inbuf := buf\<rparr>)))"
proof (rule timed_by_times)
  let ?s' = "note_read Success req (after_request [r] (s\<lparr>reads := n, inbuf := buf\<rparr>))"
  show "kept b s ?s' \<or> extended b s ?s'" if "held s b" for b
    using request_times [OF inv n that refl] .
  show "clock ?s' = clock s" "ended_by s ?s'" by (simp_all add: ended_by_def note_read_def)
qed (use t n in \<open>simp_all add: session_work_def\<close>)

lemma timed_waited:
  assumes "timed_inv s" and "in_time s t" and "clock s \<le> t"
  shows "timed_inv (s\<lparr>clock := t\<rparr>)"
proof -
  have "bounded s (t + seconds 30)"
    using assms held_mono [of s "clock s + seconds 30" "t + seconds 30"] by (auto simp: timed_inv_def bounded_def)
  then show ?thesis
    using assms elapsed_bounded [OF _ assms(2,3)] by (auto simp: timed_inv_def timed_ok_def)
qed

lemma timed_step:
  assumes "session_step e need_eof c c'" and "env_ok rows e" and "session_inv ver (fst c)" and "timed_inv (fst c)"
  shows "timed_inv (fst c')"
  using assms(1)
proof cases
  case Move
  then show ?thesis using timed_move [OF _ assms(2,3,4)] by (metis prod.collapse)
next
  case (Elapsed s t w)
  then show ?thesis using timed_waited [of s t] assms(4) by simp
qed (use assms(4) in simp)

lemma reachable_timed:
  assumes "env_ok rows e" and "reachable e need_eof c"
  shows "timed_inv (fst c)"
  using assms(2)
proof induction
  case (Stepped c c')
  then show ?case using timed_step [OF Stepped(2) assms(1) reachable_inv [OF assms(1) Stepped(1)]] by blast
qed (simp add: timed_launched)

lemma timed_age:
  assumes "timed_inv s" and "0 < session_work s"
  shows "clock s \<le> seconds 30 * (length (requests s) + (case kind s of Plain \<Rightarrow> 1 | Ssl \<Rightarrow> 4))"
proof -
  have "clock s \<le> seconds 30 * extensions s"
    using assms by (auto simp: timed_inv_def bounded_def held_def)
  also have "\<dots> \<le> seconds 30 * (length (requests s) + (case kind s of Plain \<Rightarrow> 1 | Ssl \<Rightarrow> 4))"
    by (intro mult_le_mono2) (simp add: extensions_def split: stream_kind.split)
  finally show ?thesis .
qed

text \<open>Once reading has ended, only the shutdown of a TLS session extends the time, once.\<close>

definition rest_bound :: "nat \<Rightarrow> session \<Rightarrow> nat" where
  "rest_bound b s = b + (if kind s = Ssl \<and> write_end s then seconds 30 else 0)"

lemma rest_step:
  assumes "session_step e need_eof (s, w) (s', w')" and "env_ok rows e" and "session_inv ver s" and "timed_inv s"
    and "read_end s" and "bounded s (rest_bound b s)"
  shows "read_end s' \<and> kind s' = kind s \<and> bounded s' (rest_bound b s')"
  using assms(1)
proof cases
  case Move
  have mv: "clock s' = clock s" "ended_by s s'"
    using move_ended_by [OF Move assms(2)] by auto
  have ok: "timed_ok s" and h: "held s (rest_bound b s)"
    using assms(4,6) move_needs_work [OF Move, simplified] by (auto simp: timed_inv_def bounded_def)
  have "held s' (rest_bound b s')"
    using move_times [OF Move assms(2,3) h ok]
  proof
    assume "kept (rest_bound b s) s s'"
    then show ?thesis using mv(2) by (auto simp: kept_def rest_bound_def ended_by_def elim!: held_mono)
  next
    assume "extended (rest_bound b s) s s'"
    then show ?thesis
      using h mv(2) assms(5) by (auto simp: extended_def rest_bound_def ended_by_def held_def)
  qed
  then show ?thesis using mv(2) assms(5) by (auto simp: bounded_def ended_by_def)
next
  case (Elapsed t)
  then show ?thesis
    using elapsed_bounded [OF assms(6) Elapsed(4,3)] assms(5) by (simp add: rest_bound_def)
qed (use assms(5,6) in simp)

text \<open>A session at rest has nothing left to send unless a write has ended it.\<close>

lemma rest_is_clean:
  assumes "session_inv ver s" and "session_work s = 0" and "\<not> write_end s"
  shows "items s = []" "finished s = started s" "read_end s"
proof -
  have w: "writes s = take 1 (items s)" "started s = finished s @ writes s"
    using assms(1,3) by (simp_all add: session_inv_def writes_ok_def)
  have "writes s = []" using assms(2) by (simp add: session_work_def)
  with w show "items s = []" "finished s = started s" by (cases "items s"; simp)+
  have "flow_ok s" "handshakes s + reads s = 0"
    using assms(1,2) by (simp_all add: session_inv_def session_work_def)
  then show "read_end s"
    using \<open>items s = []\<close> by (cases "read_end s") (simp_all add: flow_ok_def queue_limit_def)
qed

section \<open>A late request\<close>

text \<open>Whatever is in flight can complete, with an error if nothing else.\<close>

lemma work_can_complete:
  assumes "0 < session_work s"
  shows "\<exists>c'. session_move e need_eof (s, w) c'"
proof -
  consider n where "handshakes s = Suc n" | n where "reads s = Suc n" | m ms where "writes s = [] @ m # ms"
    | n where "shutdowns s = Suc n"
    using assms
    by (cases "handshakes s"; cases "reads s"; cases "writes s"; cases "shutdowns s") (auto simp: session_work_def)
  then show ?thesis
  proof cases
    case 2
    have "on_read e (OtherError ''x'') req (s\<lparr>reads := n, inbuf := []\<rparr>) w =
        Ok (log_fail (OtherError ''x'') ''read'' (s\<lparr>reads := n, inbuf := []\<rparr>), w)" for req
      by (simp add: on_read_def)
    from ReadDone [OF 2 this admits_errors(2)] show ?thesis by blast
  next
    case 3
    have "on_write (need_eof m) (OtherError ''x'') (s\<lparr>writes := [] @ ms\<rparr>) =
        Ok (log_fail (OtherError ''x'') ''write'' (s\<lparr>writes := [] @ ms\<rparr>))"
      by (simp add: on_write_def)
    from WriteDone [where need_eof = need_eof, OF 3 this] show ?thesis by blast
  qed (use HandshakeDone ShutdownDone in blast)+
qed

text \<open>A plain session that got its first request after some time.\<close>

lemma demo_idle:
  assumes "t \<le> seconds 30"
  shows "reachable demo_env need_eof ((new_session Plain buf)\<lparr>clock := t\<rparr>, demo_world)"
proof -
  let ?s = "new_session Plain buf"
  have "session_step demo_env need_eof (?s, demo_world) (?s\<lparr>clock := t\<rparr>, demo_world)"
    by (rule Elapsed) (use assms in \<open>simp_all add: run_defs in_time_def within_def time_limit_def\<close>)
  then show ?thesis by (rule reachable.Stepped [OF reachable.Launched])
qed

lemma demo_late:
  assumes "t \<le> seconds 30"
  shows "\<exists>s w m. reachable demo_env need_eof (s, w) \<and> requests s = [demo_get ''x''] \<and> clock s = t \<and>
           kind s = Plain \<and> items s = [m] \<and> finished s = [] \<and> handshakes s = 0 \<and> shutdowns s = 0 \<and>
           \<not> read_end s \<and> \<not> write_end s \<and> writes s = [m] \<and> write_due s = Some (seconds 30) \<and>
           reads s = 1 \<and> read_due s = Some (t + seconds 30)"
proof -
  let ?s0 = "(new_session Plain [])\<lparr>clock := t\<rparr>"
  let ?m = "bad_request (beast_version demo_env) (demo_get ''x'') ''Illegal request-target''"
  let ?s1 = "after_request [?m] (?s0\<lparr>reads := 0, inbuf := []\<rparr>)"
  have s0: "reads ?s0 = Suc 0" by (simp add: run_defs)
  have "on_read demo_env Success (demo_get ''x'') (?s0\<lparr>reads := 0, inbuf := []\<rparr>) demo_world = Ok (?s1, send ?m demo_world)"
    by (simp add: on_read_def demo_illegal)
  then have "session_move demo_env need_eof (?s0, demo_world)
      (note_read Success (demo_get ''x'') ?s1, send ?m demo_world)"
    using s0 by (intro ReadDone) (simp_all add: admits_def within_def run_defs demo_get_def)
  from reachable.Stepped [OF demo_idle [OF assms] Move [OF this]]
  show ?thesis
  proof (intro exI conjI)
    show "requests (note_read Success (demo_get ''x'') ?s1) = [demo_get ''x'']"
      by (simp add: note_read_def run_defs)
    show "writes (note_read Success (demo_get ''x'') ?s1) = [?m]" "reads (note_read Success (demo_get ''x'') ?s1) = 1"
      "write_due (note_read Success (demo_get ''x'') ?s1) = Some (seconds 30)"
      "read_due (note_read Success (demo_get ''x'') ?s1) = Some (t + seconds 30)"
      using assms
      by (simp_all add: note_read_def run_defs after_request_def queue_push_def start_write_def is_full_def
          queue_limit_def time_limit_def)
  qed (simp_all add: run_defs note_read_def after_request_def queue_push_def start_write_def is_full_def)
qed

text \<open>
  The time is set for the read of a request, and the response gets what is left of it: one second
  after a request that took 29, while the next read has its 30.
\<close>

lemma late_request_hurries_response:
  "\<exists>s w m. reachable demo_env need_eof (s, w) \<and> writes s = [m] \<and> reads s = 1 \<and> clock s = seconds 29 \<and>
           write_due s = Some (clock s + seconds 1) \<and> read_due s = Some (clock s + seconds 30)"
  using demo_late [of "seconds 29" need_eof] by (auto simp: seconds_def)

text \<open>A session whose only response was written before the client closed its side.\<close>

lemma demo_at_rest:
  "\<exists>s w m. reachable demo_env (\<lambda>_. False) (s, w) \<and> requests s = [demo_get ''x''] \<and> finished s = [m] \<and>
     session_work s = 0 \<and> \<not> write_end s"
proof -
  obtain s w m where s: "reachable demo_env (\<lambda>_. False) (s, w)" "requests s = [demo_get ''x'']" "kind s = Plain"
    "items s = [m]" "finished s = []" "handshakes s = 0" "shutdowns s = 0" "\<not> write_end s" "writes s = [m]" "reads s = 1"
    using demo_late [of 0 "\<lambda>_. False"] by auto
  let ?s1 = "note_write Success False m (s\<lparr>items := [], writes := []\<rparr>)"
  let ?s2 = "note_read (EndOfStream ''x'') (demo_get ''x'') (do_eof (?s1\<lparr>reads := 0, inbuf := []\<rparr>))"
  have w: "writes s = [] @ m # []" using s by simp
  have "on_write False Success (s\<lparr>writes := [] @ []\<rparr>) = Ok (s\<lparr>items := [], writes := []\<rparr>)"
    using s by (simp add: on_write_def queue_on_write_def is_full_def queue_limit_def)
  from WriteDone [where need_eof = "\<lambda>_. False", OF w this]
  have r1: "reachable demo_env (\<lambda>_. False) (?s1, w)" by (rule reachable.Stepped [OF s(1) Move])
  have "reads ?s1 = Suc 0" using s by (simp add: note_write_def)
  moreover have "on_read demo_env (EndOfStream ''x'') (demo_get ''x'') (?s1\<lparr>reads := 0, inbuf := []\<rparr>) w =
      Ok (do_eof (?s1\<lparr>reads := 0, inbuf := []\<rparr>), w)"
    by (simp add: on_read_def)
  ultimately have "session_move demo_env (\<lambda>_. False) (?s1, w) (?s2, w)" by (rule ReadDone) simp
  from reachable.Stepped [OF r1 Move [OF this]] s show ?thesis
    by (intro exI [of _ ?s2] exI [of _ w] exI [of _ m]) (simp add: note_read_def note_write_def session_work_def do_eof_defs)
qed

section \<open>Properties\<close>

text \<open>
  No session lasts without requests: as long as anything of a session is in flight, its age is at
  most 30 seconds for each request it has read, and 30 seconds more, two minutes for a TLS session
  with its handshake and its shutdowns; and an operation in flight can always complete.
\<close>

theorem session_lifetime:
  assumes "env_ok rows e" and "reachable e need_eof (s, w)" and "0 < session_work s"
  shows "clock s \<le> seconds 30 * (length (requests s) + (case kind s of Plain \<Rightarrow> 1 | Ssl \<Rightarrow> 4)) \<and>
         (\<exists>c'. session_move e need_eof (s, w) c')"
  using timed_age [OF _ assms(3)] reachable_timed [OF assms(1,2)] work_can_complete [OF assms(3)] by simp

theorem session_lifetime_witness:
  "\<exists>s w. reachable demo_env (\<lambda>_. False) (s, w) \<and> requests s = [] \<and> clock s = seconds 30 \<and>
         clock s \<le> seconds 30 * (length (requests s) + 1)"
proof -
  let ?s = "(new_session Plain [])\<lparr>clock := seconds 30\<rparr>"
  have r: "reachable demo_env (\<lambda>_. False) (?s, demo_world)" by (rule demo_idle) simp
  have "0 < session_work ?s" "requests ?s = []" "kind ?s = Plain" by (simp_all add: session_work_def run_defs)
  with session_lifetime [OF demo_env_ok r] r show ?thesis
    by (intro exI [of _ ?s] exI [of _ demo_world]) simp
qed

text \<open>
  C11: A session whose reading has ended is at rest within 30 seconds, a TLS session within a minute,
  however many responses wait: then nothing of it is in flight any more.
\<close>

theorem session_rests:
  assumes "env_ok rows e" and "reachable e need_eof (s, w)" and "read_end s"
    and "(session_step e need_eof)\<^sup>*\<^sup>* (s, w) (s', w')" and "0 < session_work s'"
  shows "clock s' \<le> clock s + seconds (case kind s of Plain \<Rightarrow> 30 | Ssl \<Rightarrow> 60)"
proof -
  let ?b = "clock s + seconds 30"
  have "reachable e need_eof c' \<and> read_end (fst c') \<and> kind (fst c') = kind s \<and> bounded (fst c') (rest_bound ?b (fst c'))"
    if "(session_step e need_eof)\<^sup>*\<^sup>* (s, w) c'" for c'
    using that
  proof induction
    case base
    have "bounded s ?b" using reachable_timed [OF assms(1,2)] by (simp add: timed_inv_def)
    then have "bounded s (rest_bound ?b s)"
      using held_mono [of s ?b "rest_bound ?b s"] by (auto simp: bounded_def rest_bound_def)
    then show ?case using assms(2,3) by simp
  next
    case (step c1 c2)
    obtain s1 w1 s2 w2 where c: "c1 = (s1, w1)" "c2 = (s2, w2)" by (cases c1; cases c2) auto
    have "session_inv (beast_version e) s1" "timed_inv s1"
      using reachable_inv [OF assms(1)] reachable_timed [OF assms(1)] step.IH c by auto
    from rest_step [OF step.hyps(2) [unfolded c] assms(1) this, of ?b] step.IH c
    have "read_end s2 \<and> kind s2 = kind s \<and> bounded s2 (rest_bound ?b s2)" by simp
    then show ?case using step.IH step.hyps(2) c by (auto intro: reachable.Stepped)
  qed
  from this [OF assms(4)] assms(5) have "clock s' \<le> rest_bound ?b s'" "kind s' = kind s"
    by (auto simp: bounded_def held_def)
  then show ?thesis by (auto simp: rest_bound_def seconds_def split: stream_kind.split if_splits)
qed

theorem session_rests_witness:
  "\<exists>s w s'. reachable demo_env (\<lambda>_. False) (s, w) \<and> read_end s \<and> clock s = 0 \<and>
     (session_step demo_env (\<lambda>_. False))\<^sup>*\<^sup>* (s, w) (s', w) \<and> 0 < session_work s' \<and>
     clock s' = seconds 30 \<and> clock s' \<le> clock s + seconds 30"
proof -
  obtain s w m where s: "reachable demo_env (\<lambda>_. False) (s, w)" "kind s = Plain" "clock s = 0"
    "handshakes s = 0" "shutdowns s = 0" "writes s = [m]" "write_due s = Some (seconds 30)" "reads s = 1"
    using demo_late [of 0 "\<lambda>_. False"] by auto
  let ?s1 = "note_read (EndOfStream ''x'') (demo_get ''x'') (do_eof (s\<lparr>reads := 0, inbuf := []\<rparr>))"
  let ?s2 = "?s1\<lparr>clock := seconds 30\<rparr>"
  have "on_read demo_env (EndOfStream ''x'') (demo_get ''x'') (s\<lparr>reads := 0, inbuf := []\<rparr>) w =
      Ok (do_eof (s\<lparr>reads := 0, inbuf := []\<rparr>), w)"
    by (simp add: on_read_def)
  then have "session_move demo_env (\<lambda>_. False) (s, w) (?s1, w)"
    using s(8) by (intro ReadDone) simp_all
  then have r: "reachable demo_env (\<lambda>_. False) (?s1, w)" by (rule reachable.Stepped [OF s(1) Move])
  have e: "read_end ?s1" "kind ?s1 = Plain" "clock ?s1 = 0" "0 < session_work ?s2"
    using s by (simp_all add: note_read_def session_work_def do_eof_defs)
  have "session_step demo_env (\<lambda>_. False) (?s1, w) (?s2, w)"
    by (rule Elapsed) (use s in \<open>simp_all add: note_read_def do_eof_defs in_time_def within_def\<close>)
  then have st: "(session_step demo_env (\<lambda>_. False))\<^sup>*\<^sup>* (?s1, w) (?s2, w)" by (rule r_into_rtranclp)
  from session_rests [OF demo_env_ok r e(1) st e(4)] r e st show ?thesis
    by (intro exI [of _ ?s1] exI [of _ w] exI [of _ ?s2]) simp
qed

text \<open>
  C9: What a session delivers, for every order and every outcome of the asynchronous operations: the
  responses handed to the stream, followed by those that wait, answer the requests read so far one by
  one and in order; those whose writes are complete answer the first of them; and when the session is
  at rest and no write has failed or closed the connection, they answer all requests.
\<close>

theorem session_delivers:
  assumes "env_ok rows e" and "reachable e need_eof (s, w)"
  shows "list_all2 (answers (beast_version e)) (requests s) (started s @ drop 1 (items s)) \<and>
         list_all2 (answers (beast_version e)) (take (length (finished s)) (requests s)) (finished s) \<and>
         (session_work s = 0 \<and> \<not> write_end s \<longrightarrow>
            list_all2 (answers (beast_version e)) (requests s) (finished s) \<and> read_end s)"
proof -
  have inv: "session_inv (beast_version e) s" using reachable_inv [OF assms] by simp
  obtain l where l: "started s = finished s @ l"
    using inv by (auto simp: session_inv_def writes_ok_def split: if_splits)
  have all: "list_all2 (answers (beast_version e)) (requests s) (finished s @ l @ drop 1 (items s))"
    using inv l by (simp add: session_inv_def answered_def)
  then have "list_all2 (answers (beast_version e)) (take (length (finished s)) (requests s)) (finished s)"
    using list_all2_takeI [OF all, of "length (finished s)"] by simp
  moreover have "list_all2 (answers (beast_version e)) (requests s) (finished s) \<and> read_end s"
    if "session_work s = 0" "\<not> write_end s"
    using rest_is_clean [OF inv that] all l by simp
  ultimately show ?thesis using all l by simp
qed

theorem session_delivers_witness:
  "\<exists>s w m. reachable demo_env (\<lambda>_. False) (s, w) \<and> requests s = [demo_get ''x''] \<and> finished s = [m] \<and>
     list_all2 (answers (beast_version demo_env)) (requests s) (finished s)"
proof -
  obtain s w m where s: "reachable demo_env (\<lambda>_. False) (s, w)" "requests s = [demo_get ''x'']"
    "finished s = [m]" "session_work s = 0" "\<not> write_end s"
    using demo_at_rest by blast
  from session_delivers [OF demo_env_ok s(1)] s show ?thesis by blast
qed

end
