(* ===== verification/Endings.thy ===== *)
theory Endings
  imports Concurrency Timeouts
begin

text \<open>
  How the connections of the server and the server itself come to an end: the time limits of all
  sessions, with the handlers of others interleaving, and what happens after a signal.
\<close>

section \<open>Time limits in the server\<close>

text \<open>
  A detection is at most 30 seconds old, not counting the time until its handler was first run.
\<close>

definition detector_timed :: "detector \<Rightarrow> bool" where
  "detector_timed d \<longleftrightarrow>
     (0 < dispatched d \<longrightarrow> det_clock d = 0) \<and>
     (0 < detecting d \<longrightarrow> det_clock d \<le> seconds 30 \<and> detect_due d = Some (seconds 30))"

definition all_timed :: "'d server \<Rightarrow> bool" where
  "all_timed c \<longleftrightarrow> (\<forall>s\<in>set (sv_sessions c). timed_inv s) \<and> (\<forall>d\<in>set (sv_detectors c). detector_timed d)"

lemma launched_timed:
  "detector_timed (run_detector detect_session)"
  "detector_ok d \<Longrightarrow> detector_timed d \<Longrightarrow> dispatched d = Suc n \<Longrightarrow> detector_timed (on_run (d\<lparr>dispatched := n\<rparr>))"
  by (auto simp: detector_timed_def detector_ok_def run_detector_def detect_session_def on_run_def Let_def)

lemma wait_detector_timed:
  "detector_timed d \<Longrightarrow> detecting d = 0 \<or> within (detect_due d) (det_clock d + t) \<Longrightarrow> detector_timed (wait_detector t d)"
  by (auto simp: detector_timed_def wait_detector_def within_def)

lemma wait_session_timed:
  assumes "timed_inv (sv_sessions c ! i)" and "may_wait d c" and "i < length (sv_sessions c)"
  shows "timed_inv (wait_session c d i)"
proof (cases "busy c i")
  case False
  then have "in_time (sv_sessions c ! i) (clock (sv_sessions c ! i) + d)"
    using assms(2,3) by (auto simp: may_wait_def)
  with timed_waited [OF assms(1) this] False show ?thesis by (simp add: wait_session_def Let_def)
qed (use assms(1) in \<open>simp add: wait_session_def Let_def\<close>)

lemma resumed_timed:
  assumes inv: "server_inv rows e c" and t: "all_timed c" and jobs: "sv_jobs c = js @ j # ks"
    and n: "reads (sv_sessions c ! job_session j) = Suc n"
    and fin: "finish_request e (job_request j) (job_pending j) (sv_world c) = Ok w"
    and s: "s = after_request (drop (length (sent (sv_world c))) (sent w))
           ((sv_sessions c ! job_session j)\<lparr>reads := n, inbuf := job_rest j\<rparr>)"
  shows "timed_inv (note_read Success (job_request j) s)"
proof -
  let ?s0 = "sv_sessions c ! job_session j"
  have env: "env_ok rows e" using inv by (simp add: server_inv_def store_inv_def)
  have j: "job_session j < length (sv_sessions c)" "pending_ok e (job_request j) (job_pending j)"
    using inv jobs by (auto simp: server_inv_def jobs_ok_def)
  obtain r where "sent w = sent (sv_world c) @ [r]"
    using finish_effect [OF env j(2), of "sv_world c"] fin by (auto simp: replied_def)
  then have "s = after_request [r] (?s0\<lparr>reads := n, inbuf := job_rest j\<rparr>)" using s by simp
  moreover have "session_inv (beast_version e) ?s0" "timed_inv ?s0"
    using inv t j(1) by (simp_all add: all_timed_def server_inv_def)
  ultimately show ?thesis using timed_request [OF _ n] by blast
qed

lemma all_timed_step:
  assumes "server_step e need_eof c c'" and inv: "server_inv rows e c" and t: "all_timed c"
  shows "all_timed c'"
proof -
  have env: "env_ok rows e" and ss: "\<forall>s\<in>set (sv_sessions c). session_inv (beast_version e) s"
    and ds: "\<forall>d\<in>set (sv_detectors c). detector_ok d" "\<forall>l\<in>set (sv_listeners c). accepts l = 1"
    using inv by (simp_all add: server_inv_def store_inv_def objects_ok_def)
  show ?thesis
    using assms(1)
  proof cases
    case (Accepted i n l ec)
    have "drop (length (launched (sv_listeners c ! i))) (launched l) \<in> {[], [run_detector detect_session]}"
      by (simp add: Accepted(5) on_accept_def do_accept_def listener_fail_def Let_def)
    then show ?thesis using t Accepted(1) launched_timed(1) by (auto simp: all_timed_def)
  next
    case (Dispatched i n)
    have "detector_timed (on_run ((sv_detectors c ! i)\<lparr>dispatched := n\<rparr>))"
      using t ds(1) Dispatched(3,4) by (intro launched_timed(2)) (simp_all add: all_timed_def)
    then show ?thesis
      using t all_replace [of "sv_detectors c" detector_timed _ i] Dispatched(1) by (simp add: all_timed_def)
  next
    case (Detected i n ec result buf d new)
    have "detector_ok (sv_detectors c ! i)" using ds(1) Detected(3) by simp
    then have "dispatched d = 0" "detecting d = 0"
      using on_detect_session [OF Detected(5)] Detected(4) by (auto simp: detector_ok_def)
    then have "\<forall>d'\<in>set ((sv_detectors c)[i := d]). detector_timed d'"
      using t by (intro all_replace) (simp_all add: all_timed_def detector_timed_def)
    then show ?thesis
      using t on_detect_session [OF Detected(5)] Detected(1) by (auto simp: all_timed_def timed_launched)
  next
    case (Moved i s w)
    have "session_inv (beast_version e) (sv_sessions c ! i)" "timed_inv (sv_sessions c ! i)"
      using ss t Moved(3) by (simp_all add: all_timed_def)
    then have "timed_inv s" using timed_move [OF Moved(5) env] by blast
    then show ?thesis
      using t all_replace [of "sv_sessions c" timed_inv s i] Moved(1) by (simp add: all_timed_def)
  next
    case (Resumed js j ks n w s)
    from resumed_timed [OF inv t Resumed(3-6)] t all_replace [of "sv_sessions c" timed_inv _ "job_session j"] Resumed(1)
    show ?thesis by (simp add: all_timed_def)
  next
    case (Waited d)
    then show ?thesis
      using t wait_session_timed [of c _ d] wait_detector_timed [of _ d]
      by (auto simp: all_timed_def pass_time_def may_wait_def)
  qed (use t in \<open>simp_all add: all_timed_def on_signal_def\<close>)
qed

lemma booted_timed:
  assumes "store_inv rows e w0" and "\<forall>l\<in>set ls. accepts l = 1 \<and> launched l = []"
    and "(server_step e need_eof)\<^sup>*\<^sup>* (boot ls w0) c"
  shows "all_timed c"
  using assms(3)
proof induction
  case (step c1 c2)
  then show ?case
    using all_timed_step booted_run [OF assms(1,2) step.hyps(1)] by blast
qed (simp add: all_timed_def)

section \<open>After a signal\<close>

text \<open>
  What is left then are the handlers between their phases. From \<open>c\<close> to \<open>c'\<close> only sessions whose
  handler has finished have changed: they have been handed one more response, and nothing has come back.
\<close>

definition only_finished :: "'d server \<Rightarrow> 'd server \<Rightarrow> bool" where
  "only_finished c c' \<longleftrightarrow>
     length (sv_sessions c') = length (sv_sessions c) \<and>
     (\<forall>i<length (sv_sessions c).
        (busy c' i \<longrightarrow> busy c i) \<and>
        (sv_sessions c' ! i = sv_sessions c ! i \<or>
         busy c i \<and> \<not> busy c' i \<and> finished (sv_sessions c' ! i) = finished (sv_sessions c ! i) \<and>
         (\<exists>rs. started (sv_sessions c' ! i) = started (sv_sessions c ! i) @ rs \<and> length rs \<le> 1)))"

lemma only_finished_trans:
  assumes "only_finished c c1" and "only_finished c1 c2"
  shows "only_finished c c2"
proof -
  have "(busy c2 i \<longrightarrow> busy c i) \<and>
      (sv_sessions c2 ! i = sv_sessions c ! i \<or>
       busy c i \<and> \<not> busy c2 i \<and> finished (sv_sessions c2 ! i) = finished (sv_sessions c ! i) \<and>
       (\<exists>rs. started (sv_sessions c2 ! i) = started (sv_sessions c ! i) @ rs \<and> length rs \<le> 1))"
    if "i < length (sv_sessions c)" for i
    using assms that unfolding only_finished_def by metis
  then show ?thesis using assms by (simp add: only_finished_def)
qed

lemma stopped_step:
  assumes "server_step e need_eof c c'" and inv: "server_inv rows e c" and stop: "sv_stopped c" "sv_crash c = None"
  shows "sv_stopped c' \<and> sv_crash c' = None \<and> length (sv_jobs c) = length (sv_jobs c') + 1 \<and> only_finished c c'"
  using assms(1)
proof cases
  case (Resumed js j ks n w s)
  let ?i = "job_session j"
  let ?s0 = "sv_sessions c ! ?i"
  have env: "env_ok rows e" and jobs: "distinct (map job_session (sv_jobs c))"
    and j: "?i < length (sv_sessions c)" "pending_ok e (job_request j) (job_pending j)"
    using inv Resumed(3) by (auto simp: server_inv_def store_inv_def jobs_ok_def)
  obtain r where "sent w = sent (sv_world c) @ [r]"
    using finish_effect [OF env j(2), of "sv_world c"] Resumed(5) by (auto simp: replied_def)
  then have "s = after_request [r] (?s0\<lparr>reads := n, inbuf := job_rest j\<rparr>)" using Resumed(6) by simp
  then have "finished s = finished ?s0" "\<exists>rs. started s = started ?s0 @ rs \<and> length rs \<le> 1"
    by simp_all
  moreover have "busy c ?i" "\<not> busy c' ?i" "busy c' i \<longrightarrow> busy c i" for i
    using jobs Resumed(1,3) by (auto simp: busy_def)
  ultimately have "only_finished c c'"
    using Resumed(1) j(1) by (auto simp: only_finished_def nth_list_update note_read_def)
  then show ?thesis using Resumed stop by simp
next
  case (ResumeCrashed j x)
  have "env_ok rows e" "pending_ok e (job_request j) (job_pending j)"
    using inv ResumeCrashed(3) by (auto simp: server_inv_def store_inv_def jobs_ok_def)
  then show ?thesis
    using ResumeCrashed finish_effect [of rows e "job_request j" "job_pending j" "sv_world c"] by auto
qed (use stop in \<open>simp_all add: running_def\<close>)

lemma stopped_can_finish:
  assumes inv: "server_inv rows e c" and stop: "sv_crash c = None" and j: "sv_jobs c = j # ks"
  shows "\<exists>c'. server_step e need_eof c c'"
proof -
  have p: "env_ok rows e" "pending_ok e (job_request j) (job_pending j)" "0 < reads (sv_sessions c ! job_session j)"
    using inv j by (auto simp: server_inv_def store_inv_def jobs_ok_def)
  then obtain w where "finish_request e (job_request j) (job_pending j) (sv_world c) = Ok w"
    using finish_effect [of rows e "job_request j" "job_pending j" "sv_world c"] by blast
  moreover obtain n where "reads (sv_sessions c ! job_session j) = Suc n"
    using p(3) by (cases "reads (sv_sessions c ! job_session j)") auto
  ultimately show ?thesis
    using Resumed [of c "[]" j ks] stop j by fastforce
qed

lemma stopped_run:
  assumes "(server_step e need_eof ^^ k) c c'" and "server_inv rows e c" and "sv_stopped c" and "sv_crash c = None"
  shows "server_inv rows e c' \<and> sv_stopped c' \<and> sv_crash c' = None \<and>
         length (sv_jobs c) = length (sv_jobs c') + k \<and> only_finished c c'"
  using assms(1)
proof (induction k arbitrary: c')
  case (Suc k)
  then obtain c1 where c1: "(server_step e need_eof ^^ k) c c1" "server_step e need_eof c1 c'" by auto
  with Suc.IH [OF c1(1)] stopped_step [OF c1(2)] server_step_inv [OF c1(2)] only_finished_trans [of c c1 c'] show ?case
    by auto
qed (use assms(2-4) in \<open>simp add: only_finished_def\<close>)

section \<open>Concrete servers\<close>

text \<open>A client that connects and sends nothing for 30 seconds; a post that is at work when the signal comes.\<close>

lemma demo_silent:
  "\<exists>c s. (server_step demo_env need_eof)\<^sup>*\<^sup>* (boot [demo_listener] demo_world) c \<and> sv_sessions c = [s] \<and>
     kind s = Plain \<and> 0 < session_work s \<and> requests s = [] \<and> clock s = seconds 30"
proof -
  let ?s = "new_session Plain []"
  obtain c where c: "(server_step demo_env need_eof)\<^sup>*\<^sup>* (boot [demo_listener] demo_world) c" "running c"
    "sv_sessions c = [?s]" "sv_jobs c = []" "map detecting (sv_detectors c) = [0]"
    using demo_connected [of need_eof] by (elim exE conjE) (rule that)
  have "\<forall>x\<in>set (sv_detectors c). detecting x = 0" using arg_cong [OF c(5), of set] by auto
  then have "may_wait (seconds 30) c"
    using c(3) by (simp add: may_wait_def in_time_def within_def run_defs time_limit_def)
  with c(2) have "server_step demo_env need_eof c (pass_time (seconds 30) c)" by (rule Waited)
  with c(1) have "(server_step demo_env need_eof)\<^sup>*\<^sup>* (boot [demo_listener] demo_world) (pass_time (seconds 30) c)"
    by (rule rtranclp.rtrancl_into_rtrancl)
  moreover have "sv_sessions (pass_time (seconds 30) c) = [?s\<lparr>clock := seconds 30\<rparr>]"
    using c(3,4) by (simp add: pass_time_def wait_session_def busy_def Let_def) (simp add: run_defs)
  ultimately show ?thesis
    by (intro exI [of _ "pass_time (seconds 30) c"] exI [of _ "?s\<lparr>clock := seconds 30\<rparr>"])
       (simp add: session_work_def run_defs)
qed

lemma demo_stopped:
  "\<exists>c j. (server_step demo_env need_eof)\<^sup>*\<^sup>* (boot [demo_listener] demo_world) c \<and> sv_stopped c \<and>
     sv_crash c = None \<and> sv_jobs c = [j]"
proof -
  obtain c where c: "(server_step demo_env need_eof)\<^sup>*\<^sup>* (boot [demo_listener] demo_world) c" "running c"
    "sv_sessions c = [new_session Plain []]" "sv_jobs c = []"
    using demo_connected [of need_eof] by blast
  obtain j w where s1: "server_step demo_env need_eof c (c\<lparr>sv_world := w, sv_jobs := [j]\<rparr>)"
    using demo_begins [OF c(2), of 0 need_eof] c(3,4) by (auto simp: busy_def)
  let ?c1 = "c\<lparr>sv_world := w, sv_jobs := [j]\<rparr>"
  have "server_inv (\<lambda>d. d) demo_env c" using server_run_inv [OF c(1) demo_boot_inv] by simp
  then have "sv_signals ?c1 = Suc 0" "running ?c1"
    using c(2) by (simp_all add: server_inv_def objects_ok_def running_def)
  then have s2: "server_step demo_env need_eof ?c1 (on_signal (?c1\<lparr>sv_signals := 0\<rparr>))"
    by (intro Signalled)
  have "(server_step demo_env need_eof)\<^sup>*\<^sup>* (boot [demo_listener] demo_world) (on_signal (?c1\<lparr>sv_signals := 0\<rparr>))"
    using c(1) s1 s2 by (meson rtranclp.rtrancl_into_rtrancl)
  then show ?thesis
    using c(2) by (intro exI [of _ "on_signal (?c1\<lparr>sv_signals := 0\<rparr>)"] exI [of _ j])
      (simp add: on_signal_def running_def)
qed

section \<open>Properties\<close>

text \<open>
  C10: No client holds the server by silence: in every reachable state of the whole server, with any
  number of connections and with handlers on several threads, a session with an operation in flight
  is, not counting the time its own handlers were at work, at most 30 seconds old for each request it
  has read, and 30 seconds more, two minutes for TLS; the operation can complete unless a handler
  of the session is at work; and before there is a session, a detection in flight is at most 30
  seconds old.
\<close>

theorem server_limits_sessions:
  assumes "store_inv rows e w0" and "\<forall>l\<in>set ls. accepts l = 1 \<and> launched l = []"
    and "(server_step e need_eof)\<^sup>*\<^sup>* (boot ls w0) c"
    and "i < length (sv_sessions c)" and "0 < session_work (sv_sessions c ! i)"
  shows "clock (sv_sessions c ! i) \<le> seconds 30 *
           (length (requests (sv_sessions c ! i)) + (case kind (sv_sessions c ! i) of Plain \<Rightarrow> 1 | Ssl \<Rightarrow> 4)) \<and>
         (running c \<longrightarrow> busy c i \<or>
            (\<exists>s w. server_step e need_eof c (c\<lparr>sv_sessions := (sv_sessions c)[i := s], sv_world := w\<rparr>))) \<and>
         (\<forall>d\<in>set (sv_detectors c). 0 < detecting d \<longrightarrow> det_clock d \<le> seconds 30)"
proof -
  have "timed_inv (sv_sessions c ! i)"
    and "\<forall>d\<in>set (sv_detectors c). 0 < detecting d \<longrightarrow> det_clock d \<le> seconds 30"
    using booted_timed [OF assms(1-3)] assms(4) by (simp_all add: all_timed_def detector_timed_def)
  with timed_age [OF this(1) assms(5)] work_can_complete [OF assms(5), of e need_eof "sv_world c"]
  show ?thesis using Moved assms(4) by (metis prod.collapse)
qed

theorem server_limits_sessions_witness:
  "\<exists>c s. (server_step demo_env (\<lambda>_. False))\<^sup>*\<^sup>* (boot [demo_listener] demo_world) c \<and> sv_sessions c = [s] \<and>
     requests s = [] \<and> clock s = seconds 30 \<and> clock s \<le> seconds 30 * (length (requests s) + 1)"
proof -
  obtain c s where c: "(server_step demo_env (\<lambda>_. False))\<^sup>*\<^sup>* (boot [demo_listener] demo_world) c"
    and s: "sv_sessions c = [s]" "kind s = Plain" "0 < session_work s" "requests s = []" "clock s = seconds 30"
    using demo_silent by blast
  from server_limits_sessions [OF demo_store_inv demo_listeners c, of 0] c s show ?thesis by auto
qed

text \<open>
  C17: A signal ends the event loop: after it, no handler starts; those that wait for SQLite on some
  thread finish, each in one step and none can fail or hang; then \<^verbatim>\<open>run()\<close> has returned.
  The sessions that had no handler at work stay as they were. To the others, at most the one response
  of their handler is handed to the socket meanwhile, which may take some of it; no write completes and
  what was waiting behind is never started, so that a link may have been stored whose page its client
  does not get.
\<close>

theorem signal_completes:
  assumes "store_inv rows e w0" and "\<forall>l\<in>set ls. accepts l = 1 \<and> launched l = []"
    and "(server_step e need_eof)\<^sup>*\<^sup>* (boot ls w0) c" and "sv_stopped c" and "sv_crash c = None"
    and "(server_step e need_eof ^^ k) c c'"
  shows "length (sv_jobs c) = length (sv_jobs c') + k \<and>
         (if sv_jobs c' = [] then run_returns c' else \<exists>c2. server_step e need_eof c' c2) \<and>
         length (sv_sessions c') = length (sv_sessions c) \<and>
         (\<forall>i<length (sv_sessions c).
            finished (sv_sessions c' ! i) = finished (sv_sessions c ! i) \<and>
            (\<exists>rs. started (sv_sessions c' ! i) = started (sv_sessions c ! i) @ rs \<and> length rs \<le> 1) \<and>
            (\<not> busy c i \<longrightarrow> sv_sessions c' ! i = sv_sessions c ! i))"
proof -
  have "server_inv rows e c" using booted_run [OF assms(1-3)] by simp
  note run = stopped_run [OF assms(6) this assms(4,5)]
  then have "if sv_jobs c' = [] then run_returns c' else \<exists>c2. server_step e need_eof c' c2"
    using stopped_can_finish [of rows e c'] by (cases "sv_jobs c'") (auto simp: run_returns_def)
  moreover have "finished (sv_sessions c' ! i) = finished (sv_sessions c ! i) \<and>
      (\<exists>rs. started (sv_sessions c' ! i) = started (sv_sessions c ! i) @ rs \<and> length rs \<le> 1) \<and>
      (\<not> busy c i \<longrightarrow> sv_sessions c' ! i = sv_sessions c ! i)" if "i < length (sv_sessions c)" for i
    using run that unfolding only_finished_def by (metis append_Nil2 le0 list.size(3))
  ultimately show ?thesis using run by (simp add: only_finished_def)
qed

theorem signal_completes_witness:
  "\<exists>c c'. (server_step demo_env (\<lambda>_. False))\<^sup>*\<^sup>* (boot [demo_listener] demo_world) c \<and> sv_stopped c \<and>
     \<not> run_returns c \<and> (server_step demo_env (\<lambda>_. False) ^^ 1) c c' \<and> run_returns c'"
proof -
  obtain c j where c: "(server_step demo_env (\<lambda>_. False))\<^sup>*\<^sup>* (boot [demo_listener] demo_world) c" "sv_stopped c"
    "sv_crash c = None" "sv_jobs c = [j]"
    using demo_stopped by blast
  note ends = signal_completes [OF demo_store_inv demo_listeners c(1-3)]
  obtain c' where c': "server_step demo_env (\<lambda>_. False) c c'" using ends [of 0 c] c(4) by auto
  then have "(server_step demo_env (\<lambda>_. False) ^^ 1) c c'" by (simp only: relpowp_1)
  moreover from ends [OF this] c(4) have "run_returns c'" by (simp split: if_splits)
  moreover have "\<not> run_returns c" using c(4) by (simp add: run_returns_def)
  ultimately show ?thesis using c(1,2) by blast
qed

end
