(* ===== verification/Limits.thy ===== *)
theory Limits
  imports Concurrency
begin

text \<open>
  What the limit on the body of a request means for what the server keeps: no URL it stores is longer
  than the body it came from. Of the multipart parser this uses that it reports pieces of the body.
\<close>

definition reports_pieces :: "mp_parser \<Rightarrow> bool" where
  "reports_pieces p \<longleftrightarrow> (\<forall>bd body d. OnPartData d \<in> set (p bd body) \<longrightarrow> length d \<le> length body)"

section \<open>Forms\<close>

lemma pct_decode_length: "length (pct_decode s) \<le> length s"
proof -
  have byte: "length (piece_bytes x) \<le> 1" for x
    by (cases x) (auto split: option.split)
  have "length (concat (map piece_bytes ps)) \<le> length ps" for ps
  proof (induction ps)
    case (Cons x ps)
    then show ?case using byte [of x] by simp
  qed simp
  moreover have "length (pct_pieces s) \<le> length s"
  proof (induction s rule: length_induct)
    case (1 s)
    then have IH: "length (pct_pieces r) \<le> length r" if "length r < length s" for r
      using that by blast
    show ?case
    proof (cases s)
      case (Cons c cs)
      have "length (pct_pieces cs) \<le> length cs"
        and "length (pct_pieces r) \<le> length r" if "cs = c1 # c2 # r" for c1 c2 r
        using IH [of cs] IH [of r] Cons that by simp_all
      moreover have "length (pct_pieces cs) \<le> length cs" using IH [of cs] Cons by simp
      ultimately show ?thesis
        using Cons by (cases "c = CHR ''%''"; cases cs rule: remdups_adj.cases) (auto simp: pct_pieces_char pct_pieces_pct)
    qed simp
  qed
  ultimately show ?thesis unfolding pct_decode_def by (rule order_trans)
qed

lemma split_on_length: "t \<in> set (split_on c s) \<Longrightarrow> length t \<le> length s"
proof -
  have "length t \<le> length (intercalate sep ts)" if "t \<in> set ts" for ts and sep :: string
    using that by (induction ts) (auto simp: intercalate_Cons)
  then show "t \<in> set (split_on c s) \<Longrightarrow> length t \<le> length s"
    using intercalate_split_on [of c s] by metis
qed

lemma decode_pair_length: "length (snd (decode_pair kv)) \<le> length kv"
  using pct_decode_length [of "snd (split_by_eq kv)"]
  by (auto simp: decode_pair_def split_by_eq_def split: prod.split option.splits if_splits)

lemma form_url_length:
  assumes "boost_ok (boost e)" and "form_url e req = Ok (Inr url)"
  shows "length url \<le> length (req_body req)"
proof -
  obtain t where "t \<in> set (split_on CHR ''&'' (req_body req))" "(''url'', url) = decode_pair t"
    using assms
    by (auto simp: form_url_def parse_qsl_eq form_fields_def smap_get_put_all split: if_splits option.splits
          dest!: map_of_SomeD)
  then show ?thesis
    using decode_pair_length [of t] split_on_length [of t] by (metis order_trans snd_conv)
qed

section \<open>Multipart forms\<close>

lemma run_events_sections:
  "sec \<in> set (mp_data (run_events b es mp)) \<Longrightarrow>
     sec \<in> set (mp_data mp) \<or> OnPartData (sec_data sec) \<in> set es"
proof (induction es arbitrary: mp)
  case (Cons ev es)
  from Cons.IH [of "on_event b ev mp"] Cons.prems show ?case
    by (cases ev) (auto simp: run_events_def read_header_name_def read_header_value_def read_body_def)
qed (simp add: run_events_def)

lemma section_url_data: "section_url ss \<noteq> [] \<Longrightarrow> \<exists>sec\<in>set ss. section_url ss = sec_data sec"
  by (induction ss) (auto split: option.splits header.splits param_value.splits if_splits)

lemma trim_right_length: "boost_ok b \<Longrightarrow> length (bs_trim_right b s) \<le> length s"
  using length_dropWhile_le [of is_space "rev s"] by (simp add: bs_trim_right_eq)

lemma multipart_url_length:
  assumes "boost_ok (boost e)" and "reports_pieces (parser e)" and "multipart_url e req ct = Inr url"
  shows "length url \<le> length (req_body req)"
proof -
  let ?body = "bs_trim_right (boost e) (req_body req)"
  obtain bd where url: "url = section_url (get_data (ingest (boost e) (parser e) ?body (MultiPartData bd)))" "url \<noteq> []"
    using assms(3)
    by (auto simp: multipart_url_def Let_def split: header.splits option.splits param_value.splits if_splits)
  then obtain sec where "sec \<in> set (mp_data (run_events (boost e) (parser e (cstr bd) ?body) (MultiPartData bd)))"
    "url = sec_data sec"
    using section_url_data by (auto simp: get_data_def ingest_def MultiPartData_def)
  then have "length url \<le> length ?body"
    using run_events_sections assms(2) by (fastforce simp: MultiPartData_def reports_pieces_def)
  then show ?thesis using trim_right_length [OF assms(1)] order_trans by blast
qed

lemma request_url_length:
  assumes "boost_ok (boost e)" and "reports_pieces (parser e)" and "request_url e req = Ok (Inr url)"
  shows "length url \<le> length (req_body req)"
  using assms form_url_length multipart_url_length
  by (auto simp: request_url_def Let_def split: if_splits)

lemma cstr_length: "length (cstr s) \<le> length s"
  by (simp add: cstr_def length_takeWhile_le)

section \<open>Requests and their phases\<close>

text \<open>Every row of the second table is one of the first, or its URL is no longer than \<open>n\<close>.\<close>

definition grows_within :: "nat \<Rightarrow> url_rows \<Rightarrow> url_rows \<Rightarrow> bool" where
  "grows_within n tab tab' \<longleftrightarrow> set tab' \<subseteq> set tab \<union> {(t, u). length u \<le> n}"

lemma grows_within_refl [simp]: "grows_within n tab tab"
  by (simp add: grows_within_def)

lemma grows_within_trans: "grows_within n tab1 tab2 \<Longrightarrow> grows_within n tab2 tab3 \<Longrightarrow> grows_within n tab1 tab3"
  by (auto simp: grows_within_def)

definition pending_within :: "nat \<Rightarrow> pending \<Rightarrow> bool" where
  "pending_within n p \<longleftrightarrow> (\<forall>u\<in>set_option (pending_url p). length u \<le> n)"

lemma request_grows_within:
  assumes env: "env_ok rows e" and pieces: "reports_pieces (parser e)" and ok: "handle_request e req w = Ok w'"
    and short: "length (req_body req) \<le> n"
  shows "grows_within n (table rows e w) (table rows e w')"
proof -
  have b: "boost_ok (boost e)" using env by (simp add: env_ok_def)
  consider "rows (db w') = rows (db w)"
    | url token where "request_url e req = Ok (Inr url)" "stores rows (db_file e) (cstr token) (cstr url) (db w) (db w')"
    using handle_request_effect [OF env ok] by blast
  then show ?thesis
  proof cases
    case 2
    have "length (cstr url) \<le> n"
      using request_url_length [OF b pieces 2(1)] cstr_length [of url] short by linarith
    then show ?thesis using 2(2) by (auto simp: grows_within_def stores_def)
  qed simp
qed

lemma begin_store_url:
  assumes "begin_store e req path url token w = Inr (p, w')" and "pending_url p = Some u"
  shows "u = cstr url"
proof -
  obtain h w1 where h: "make_sqlite3_handle e (db_file e) w = (h, w1)" by fastforce
  obtain rc1 binds1 w3 where b1: "bind_text e h insert_sql 1 token [] (io (SqlPrepare insert_sql True) w1) = (rc1, binds1, w3)"
    by (metis prod_cases3)
  obtain rc2 binds2 w4 where b2: "bind_text e h insert_sql 2 url binds1 w3 = (rc2, binds2, w4)"
    by (metis prod_cases3)
  have "p = Insert h binds2 path (post_data e url token)"
    using assms(1) h b1 b2 by (auto simp: begin_store_def Let_def split: if_splits)
  then show ?thesis
    using assms(2) bind_text_effect(5) [OF b1] bind_text_effect(5) [OF b2] by (auto split: if_splits)
qed

lemma begin_post_url:
  assumes run: "begin_post e req w = Ok (Inr (p, w'))" and u: "pending_url p = Some u"
  shows "\<exists>url. request_url e req = Ok (Inr url) \<and> u = cstr url"
proof -
  have post: "req_method req = Post" using run by (auto simp: begin_post_def Let_def split: if_splits)
  then obtain path found where step: "template_path e req = Ok path" "request_url e req = Ok found"
    using run by (auto simp: begin_post_def Let_def res_simps)
  with run post obtain url where url: "found = Inr url"
    by (cases found) (auto simp: begin_post_def split: if_splits)
  with run post step obtain token n where "begin_store e req path url token (w\<lparr>rd_count := n\<rparr>) = Inr (p, w')"
    by (auto simp: begin_post_def split: if_splits option.splits)
  from begin_store_url [OF this u] url step show ?thesis by blast
qed

lemma begin_get_url_no_url: "begin_get_url e req w = Ok (Inr (p, w')) \<Longrightarrow> pending_url p = None"
  by (auto simp: begin_get_url_def Let_def split: if_splits prod.splits)

lemma begin_within:
  assumes env: "env_ok rows e" and pieces: "reports_pieces (parser e)"
    and ok: "begin_request e req w = Ok (Inr (p, w'))" and short: "length (req_body req) \<le> n"
  shows "pending_within n p"
proof -
  obtain fn where fn: "begin_route e fn req w = Ok (Inr (p, w'))"
    using ok by (auto simp: begin_request_def split: if_splits option.splits)
  have "length u \<le> n" if u: "pending_url p = Some u" for u
  proof -
    have "begin_post e req w = Ok (Inr (p, w'))"
      using fn u by (cases fn) (auto simp: res_simps dest: begin_get_url_no_url)
    then obtain url where "request_url e req = Ok (Inr url)" "u = cstr url"
      using begin_post_url [OF _ u] by blast
    then show ?thesis
      using request_url_length [OF _ pieces] env cstr_length [of url] short by (fastforce simp: env_ok_def)
  qed
  then show ?thesis by (auto simp: pending_within_def)
qed

lemma finish_grows_within:
  assumes env: "env_ok rows e" and p: "pending_ok e req p" and short: "pending_within n p"
    and ok: "finish_request e req p w = Ok w'"
  shows "grows_within n (table rows e w) (table rows e w')"
proof (cases p)
  case (Lookup h binds)
  then show ?thesis
    using finish_lookup [of e rows req h binds w] env p ok by (auto simp: env_ok_def)
next
  case (Insert h binds path data)
  obtain step col d' where st: "sqlite3_step (sql e) (db w) h insert_sql binds = (step, col, d')"
    by (metis prod_cases3)
  have "rows (db w') = rows d'"
    using ok Insert st by (auto simp: Let_def serve_template_eq split: if_splits)
  then show ?thesis
    using insert_step [OF _ st, of rows] env p short Insert
    by (cases "step = SQLITE_DONE") (auto simp: env_ok_def grows_within_def pending_within_def)
qed

section \<open>The server\<close>

definition jobs_within :: "nat \<Rightarrow> 'd server \<Rightarrow> bool" where
  "jobs_within n c \<longleftrightarrow> (\<forall>j\<in>set (sv_jobs c). pending_within n (job_pending j))"

lemma step_within:
  assumes "server_step e need_eof c c'" and inv: "server_inv rows e c" and pieces: "reports_pieces (parser e)"
    and jobs: "jobs_within 10000 c"
  shows "jobs_within 10000 c' \<and> grows_within 10000 (table rows e (sv_world c)) (table rows e (sv_world c'))"
proof -
  have env: "env_ok rows e" using inv by (simp add: server_inv_def store_inv_def)
  have ss: "session_inv (beast_version e) (sv_sessions c ! i)" if "i < length (sv_sessions c)" for i
    using inv that by (simp add: server_inv_def)
  show ?thesis
    using assms(1)
  proof cases
    case (Moved i s w)
    have "grows_within 10000 (table rows e (sv_world c)) (table rows e w)"
      using move_world [OF Moved(5)] request_grows_within [OF env pieces]
        admits_read [OF ss [OF Moved(3)]] by fastforce
    then show ?thesis using Moved(1) jobs by (simp add: jobs_within_def)
  next
    case (Began i n req p w buf)
    have "length (req_body req) \<le> 10000"
      using admits_read [OF ss [OF Began(3)]] Began(5,7) by simp
    then show ?thesis
      using begin_within [OF env pieces Began(6)] begin_pending [OF env Began(6)] jobs Began(1)
      by (simp add: jobs_within_def)
  next
    case (Resumed js j ks n w s)
    have "pending_ok e (job_request j) (job_pending j)" "pending_within 10000 (job_pending j)"
      using inv jobs Resumed(3) by (auto simp: server_inv_def jobs_ok_def jobs_within_def)
    from finish_grows_within [OF env this Resumed(5)] jobs Resumed(1,3) show ?thesis
      by (simp add: jobs_within_def)
  qed (use jobs in \<open>simp_all add: jobs_within_def on_signal_def\<close>)
qed

lemma run_within:
  assumes "(server_step e need_eof)\<^sup>*\<^sup>* c c'" and "server_inv rows e c" and "reports_pieces (parser e)"
    and "jobs_within 10000 c"
  shows "jobs_within 10000 c' \<and> server_inv rows e c' \<and>
         grows_within 10000 (table rows e (sv_world c)) (table rows e (sv_world c'))"
  using assms(1)
proof induction
  case (step c1 c2)
  then show ?case
    using step_within [OF step.hyps(2) _ assms(3)] server_step_inv [OF step.hyps(2)] grows_within_trans by blast
qed (use assms in simp)

section \<open>Property\<close>

text \<open>
  C14: The limit of the parser bounds what any client can make the server keep: with any number of
  connections and with handlers on several threads, a row that was not there at the start has a URL of
  at most 10000 characters, and so has every URL that a handler is about to store.
\<close>

theorem stored_urls_bounded:
  assumes "store_inv rows e w0" and "reports_pieces (parser e)" and "\<forall>l\<in>set ls. accepts l = 1 \<and> launched l = []"
    and "(server_step e need_eof)\<^sup>*\<^sup>* (boot ls w0) c"
  shows "set (table rows e (sv_world c)) \<subseteq> set (table rows e w0) \<union> {(t, u). length u \<le> 10000} \<and>
         (\<forall>j\<in>set (sv_jobs c). \<forall>u\<in>set_option (pending_url (job_pending j)). length u \<le> 10000)"
  using run_within [OF assms(4) boot_inv [OF assms(1,3)] assms(2)]
  by (simp add: jobs_within_def grows_within_def pending_within_def)

theorem stored_urls_bounded_witness:
  "\<exists>c j. (server_step demo_env (\<lambda>_. False))\<^sup>*\<^sup>* (boot [demo_listener] demo_world) c \<and> j \<in> set (sv_jobs c) \<and>
     pending_url (job_pending j) = Some ''http://a.b'' \<and> length (the (pending_url (job_pending j))) \<le> 10000"
proof -
  obtain c j where c: "(server_step demo_env (\<lambda>_. False))\<^sup>*\<^sup>* (boot [demo_listener] demo_world) c" "j \<in> set (sv_jobs c)"
    "pending_url (job_pending j) = Some ''http://a.b''"
    using demo_race [of "\<lambda>_. False"] by blast
  have "reports_pieces (parser demo_env)" by (simp add: reports_pieces_def demo_env_def)
  from stored_urls_bounded [OF demo_store_inv this demo_listeners c(1)] c show ?thesis by fastforce
qed

end
