(* ===== verification/Persistence.thy ===== *)
theory Persistence
  imports System
begin

text \<open>
  Persistent connections: which response is the last of a connection. Beast's \<^verbatim>\<open>need_eof\<close> is
  a parameter; of it, \<open>closes\<close> assumes what its documentation says, that a message whose keep-alive
  was switched off ends the connection.
\<close>

definition closes :: "(response \<Rightarrow> bool) \<Rightarrow> bool" where
  "closes need_eof \<longleftrightarrow> (\<forall>r. res_keep_alive r = Some False \<longrightarrow> need_eof r)"

section \<open>The last response\<close>

text \<open>
  A finished response that ends the connection is the last one started; a connection that was ended
  by a write is ended by such a response or by a write that failed.
\<close>

definition eof_ok :: "(response \<Rightarrow> bool) \<Rightarrow> session \<Rightarrow> bool" where
  "eof_ok need_eof s \<longleftrightarrow>
     (\<forall>i<length (finished s). need_eof (finished s ! i) \<longrightarrow> write_end s \<and> length (started s) = Suc i) \<and>
     (write_end s \<and> started s = finished s \<longrightarrow> finished s \<noteq> [] \<and> need_eof (last (finished s)))"

lemma eof_ok_same:
  assumes "eof_ok need_eof s" and "finished s' = finished s" and "write_end s' = write_end s"
    and "write_end s \<Longrightarrow> started s' = started s"
  shows "eof_ok need_eof s'"
proof (cases "write_end s")
  case True
  with assms show ?thesis by (simp add: eof_ok_def)
next
  case False
  with assms show ?thesis by (auto simp: eof_ok_def)
qed

lemma write_eof_ok:
  assumes inv: "session_inv ver s" and m: "writes s = xs @ m # ys"
    and ok: "on_write (need_eof m) ec (s\<lparr>writes := xs @ ys\<rparr>) = Ok s'" and eof: "eof_ok need_eof s"
  shows "eof_ok need_eof (note_write ec (need_eof m) m s')"
proof -
  let ?s = "s\<lparr>writes := xs @ ys\<rparr>"
  note fl = write_in_flight [OF inv m]
  have none: "\<not> need_eof (finished s ! i)" if "i < length (finished s)" for i
    using eof fl(1) that by (auto simp: eof_ok_def)
  have ne: "items s \<noteq> []" using fl(4) by (metis list.distinct(1))
  show ?thesis
  proof (cases "ec = Success \<and> \<not> need_eof m")
    case True
    obtain s2 where "queue_on_write ?s = Ok (queue_limit \<le> length (items s), s2)"
      and s2: "finished s2 = finished s" "\<not> write_end s2"
      using queue_on_write_eq [of ?s] ne fl(1) by auto
    then have "s' = do_read s2 \<or> s' = s2"
      using ok True by (auto simp: on_write_def)
    with s2 have "finished s' = finished s" "\<not> write_end s'" by auto
    with True none show ?thesis
      by (auto simp: eof_ok_def note_write_def nth_append less_Suc_eq)
  next
    case False
    then have "s' = log_fail ec ''write'' ?s \<or> s' = do_eof ?s"
      using ok by (auto simp: on_write_def split: if_splits)
    then have "finished s' = finished s" "started s' = finished s @ [m]"
      using fl(5) by auto
    with False none show ?thesis
      by (auto simp: eof_ok_def note_write_def nth_append less_Suc_eq)
  qed
qed

lemma move_eof_ok:
  assumes "session_move e need_eof (s, w) (s', w')" and env: "env_ok rows e"
    and inv: "session_inv (beast_version e) s" and eof: "eof_ok need_eof s"
  shows "eof_ok need_eof s'"
  using assms(1)
proof cases
  case (WriteDone xs m ys ec s1)
  then show ?thesis using write_eof_ok [OF inv WriteDone(3,4) eof] by simp
next
  case (ReadDone n ec req buf s1)
  have "finished s' = finished s" "write_end s' = write_end s"
    using on_read_cases [OF env ReadDone(3)] ReadDone(1) by (auto simp: note_read_def)
  then show ?thesis
    using no_move_writes_after_end [OF _ env assms(1)] inv by (intro eof_ok_same [OF eof]) simp_all
next
  case (HandshakeDone n ec used)
  then show ?thesis
    by (intro eof_ok_same [OF eof]) (auto simp: on_handshake_def Let_def)
next
  case (ShutdownDone n ec)
  then show ?thesis
    by (intro eof_ok_same [OF eof]) (auto simp: on_shutdown_def)
qed

lemma reachable_eof_ok:
  assumes env: "env_ok rows e" and "reachable e need_eof c"
  shows "eof_ok need_eof (fst c)"
  using assms(2)
proof induction
  case (Launched k buf w)
  show ?case by (cases k) (simp_all add: eof_ok_def run_defs)
next
  case (Stepped c c')
  show ?case
    using Stepped(2)
  proof cases
    case Move
    then show ?thesis
      using move_eof_ok [OF _ env] reachable_inv [OF env Stepped(1)] Stepped.IH by (metis prod.collapse)
  next
    case (Elapsed s t w)
    then show ?thesis using Stepped.IH by (simp add: eof_ok_def)
  qed (use Stepped.IH in simp)
qed


section \<open>A connection that its client wants closed\<close>

text \<open>
  The client pipelines a post behind a request that asks to close the connection: the post is read
  while the first response is written, and its link is stored, before the end of the connection.
\<close>

definition demo_last :: request where
  "demo_last = (demo_get ''x'')\<lparr>req_keep_alive := False\<rparr>"

definition demo_eof :: "response \<Rightarrow> bool" where
  "demo_eof r \<longleftrightarrow> res_keep_alive r = Some False"

lemma demo_closes: "closes demo_eof"
  by (simp add: closes_def demo_eof_def)

lemma read_move:
  assumes "handle_request e req w = Ok w'" and "sent w' = sent w @ [r]" and "reads s = Suc n"
    and "admits s Success req"
  shows "session_move e need_eof (s, w) (note_read Success req (after_request [r] (s\<lparr>reads := n, inbuf := []\<rparr>)), w')"
proof -
  have "on_read e Success req (s\<lparr>reads := n, inbuf := []\<rparr>) w =
      Ok (after_request [r] (s\<lparr>reads := n, inbuf := []\<rparr>), w')"
    using assms(1,2) by (simp add: on_read_def)
  from ReadDone [OF assms(3) this assms(4)] show ?thesis .
qed

lemma demo_last_handled:
  "handle_request demo_env demo_last w =
     Ok (send (bad_request (beast_version demo_env) demo_last ''Illegal request-target'') w)"
  by (simp add: handle_request_eq illegal_target_def demo_last_def demo_get_def str_at_def)

lemma demo_last_read:
  "\<exists>s w m. reachable demo_env need_eof (s, w) \<and> requests s = [demo_last] \<and> items s = [m] \<and> writes s = [m] \<and>
           finished s = [] \<and> started s = [m] \<and> reads s = 1 \<and> res_keep_alive m = Some False \<and>
           res_status m = 400 \<and> db w = db demo_world"
proof -
  let ?m = "bad_request (beast_version demo_env) demo_last ''Illegal request-target''"
  have "reachable demo_env need_eof (note_read Success demo_last
      (after_request [?m] (new_session Plain []\<lparr>reads := 0, inbuf := []\<rparr>)), send ?m demo_world)"
    by (rule reachable.Stepped [OF reachable.Launched Move], rule read_move [OF demo_last_handled])
      (simp_all add: run_defs admits_def within_def demo_last_def demo_get_def)
  moreover have "res_keep_alive ?m = Some False" "res_status ?m = 400"
    by (simp_all add: response_defs demo_last_def)
  ultimately show ?thesis
    by (intro exI [of _ "note_read Success demo_last (after_request [?m] (new_session Plain []\<lparr>reads := 0, inbuf := []\<rparr>))"]
          exI [of _ "send ?m demo_world"] exI [of _ ?m])
       (simp add: note_read_def run_defs queue_limit_def)
qed

lemma post_behind_last_request:
  "\<exists>s w. reachable demo_env demo_eof (s, w) \<and> requests s = [demo_last, demo_post] \<and>
         db w ''urls.db'' \<noteq> [] \<and> length (finished s) = 1 \<and> res_status (finished s ! 0) = 400 \<and> write_end s"
proof -
  obtain s w m where s: "reachable demo_env demo_eof (s, w)" "requests s = [demo_last]" "items s = [m]"
    "writes s = [m]" "finished s = []" "reads s = Suc 0" "res_keep_alive m = Some False" "res_status m = 400"
    "db w = db demo_world"
    using demo_last_read [of demo_eof] by auto
  have "db w ''urls.db'' = []" using s(9) by (simp add: demo_world_def)
  then obtain w1 where w1: "handle_request demo_env demo_post w = Ok w1" "db w1 ''urls.db'' \<noteq> []"
    using demo_post_stores by blast
  obtain r where r: "sent w1 = sent w @ [r]"
    using handle_request_effect [OF demo_env_ok w1(1)] by (auto simp: replied_def)
  define s1 where "s1 = note_read Success demo_post (after_request [r] (s\<lparr>reads := 0, inbuf := []\<rparr>))"
  have s1: "reachable demo_env demo_eof (s1, w1)"
    unfolding s1_def
    by (rule reachable.Stepped [OF s(1) Move], rule read_move [OF w1(1) r s(6)])
       (use demo_admitted(2) reachable_inv [OF demo_env_ok s(1)] s(6) in simp)
  have f: "writes s1 = [] @ m # []" "requests s1 = [demo_last, demo_post]" "finished s1 = []"
    using s by (simp_all add: s1_def note_read_def)
  have "on_write (demo_eof m) Success (s1\<lparr>writes := [] @ []\<rparr>) = Ok (do_eof (s1\<lparr>writes := [] @ []\<rparr>))"
    using s(7) by (simp add: on_write_def demo_eof_def)
  from reachable.Stepped [OF s1 Move [OF WriteDone [OF f(1), where need_eof = demo_eof, OF this]]]
  have "reachable demo_env demo_eof
      (do_eof (s1\<lparr>writes := []\<rparr>)\<lparr>finished := [m], write_end := True\<rparr>, w1)"
    using f s(7) by (simp add: note_write_def demo_eof_def)
  then show ?thesis
    using f w1(2) s(8)
    by (intro exI [of _ "do_eof (s1\<lparr>writes := []\<rparr>)\<lparr>finished := [m], write_end := True\<rparr>"] exI [of _ w1]) simp
qed

section \<open>The property\<close>

lemma finished_answer:
  assumes "session_inv ver s" and "i < length (finished s)"
  shows "answers ver (requests s ! i) (finished s ! i)"
proof -
  obtain l where "started s = finished s @ l"
    using assms(1) by (auto simp: session_inv_def writes_ok_def split: if_splits)
  moreover have "list_all2 (answers ver) (requests s) (started s @ drop 1 (items s))"
    using assms(1) by (simp add: session_inv_def answered_def)
  ultimately show ?thesis
    using assms(2) by (auto dest!: list_all2_nthD2 [of _ _ _ i] simp: nth_append)
qed

text \<open>
  C20: A request to close the connection is obeyed: once the response to it has been written, unless
  it is a redirect, that response is the last; whatever completes afterwards, no other is handed to
  the stream.
\<close>

theorem close_ends_connection:
  assumes "env_ok rows e" and "closes need_eof" and "reachable e need_eof c"
    and "i < length (finished (fst c))" and "\<not> req_keep_alive (requests (fst c) ! i)"
    and "res_status (finished (fst c) ! i) \<noteq> 301" and "(session_step e need_eof)\<^sup>*\<^sup>* c c'"
  shows "write_end (fst c') \<and> length (finished (fst c)) = Suc i \<and> started (fst c') = finished (fst c)"
proof -
  note inv = reachable_inv [OF assms(1,3)]
  have "need_eof (finished (fst c) ! i)"
    using finished_answer [OF inv assms(4)] assms(2,5,6) by (simp add: answers_def closes_def)
  then have ends: "write_end (fst c)" "length (started (fst c)) = Suc i"
    using reachable_eof_ok [OF assms(1,3)] assms(4) by (simp_all add: eof_ok_def)
  then obtain l where l: "started (fst c) = finished (fst c) @ l"
    using inv by (auto simp: session_inv_def writes_ok_def)
  with ends(2) assms(4) have "l = []" by (cases l) simp_all
  with l ends nothing_written_after_close [OF assms(1,3) ends(1) assms(7)] show ?thesis by simp
qed

theorem close_ends_connection_witness:
  "\<exists>s w. requests s = [demo_last, demo_post] \<and> db w ''urls.db'' \<noteq> [] \<and>
     {c'. (session_step demo_env demo_eof)\<^sup>*\<^sup>* (s, w) c'} \<subseteq> {c'. write_end (fst c') \<and> length (started (fst c')) = 1}"
proof -
  obtain s w where s: "reachable demo_env demo_eof (s, w)" "requests s = [demo_last, demo_post]"
    "db w ''urls.db'' \<noteq> []" "length (finished s) = 1" "res_status (finished s ! 0) = 400"
    using post_behind_last_request by blast
  have no: "\<not> req_keep_alive demo_last" by (simp add: demo_last_def)
  have "write_end (fst c') \<and> length (started (fst c')) = 1"
    if "(session_step demo_env demo_eof)\<^sup>*\<^sup>* (s, w) c'" for c'
    using close_ends_connection [OF demo_env_ok demo_closes s(1) _ _ _ that, of 0] s no by simp
  with s show ?thesis by blast
qed

end
