(* ===== verification/Sample_Config.thy ===== *)
theory Sample_Config
  imports Main_Prog
begin

text \<open>
  \<^verbatim>\<open>config.toml.example\<close> as the table the program reads from it, the types of
  \<^verbatim>\<open>mimetypes.txt\<close>, a start with both, and where the relative
  paths of a configuration lead once the program is a daemon.
\<close>

definition sample_table :: toml_table where
  "sample_table =
     \<lparr>toml_u32 = (\<lambda>s k. if (s, k) = (''config'', ''threads'') then Some 2 else None),
      toml_u16 = (\<lambda>s k. if (s, k) = (''listen'', ''port'') then Some 8080
                      else if (s, k) = (''listen'', ''port2'') then Some 8043 else None),
      toml_str = (\<lambda>s k. map_of
        [((''listen'', ''ip''), ''0.0.0.0''), ((''config'', ''docroot''), ''/Users/elizabeth/shadyurl/server''),
         ((''config'', ''loglevel''), ''debug''), ((''config'', ''user''), ''elizabeth''),
         ((''config'', ''dbpath''), ''urls.db'')] (s, k)),
      toml_bool = (\<lambda>s k. if (s, k) = (''config'', ''daemon'') then Some True else None)\<rparr>"

text \<open>What the getters make of it: two listeners, a daemon, a relative path of the database.\<close>

lemma sample_values:
  "get_config_threads (ServerState sample_table types) = 2"
  "get_config_port (ServerState sample_table types) = 8080"
  "get_config_port2 (ServerState sample_table types) = 8043"
  "get_config_daemon (ServerState sample_table types)"
  "get_config_user (ServerState sample_table types) = ''elizabeth''"
  "get_config_group (ServerState sample_table types) = []"
  "get_config_db_path (ServerState sample_table types) = ''urls.db''"
  by (simp_all add: config_defs ServerState_def sample_table_def)

section \<open>The shipped table of types\<close>

text \<open>\<^verbatim>\<open>mimetypes.txt\<close>: every line is an extension, a tab and a type, and no extension occurs twice.\<close>

definition shipped_types :: "(string \<times> string) list" where
  "shipped_types =
    [(''asc'', ''text/plain''), (''asf'', ''video/x-ms-asf''), (''asx'', ''video/x-ms-asf''),
     (''avi'', ''video/x-msvideo''), (''bmp'', ''image/bmp''), (''bz2'', ''application/x-bzip''),
     (''cc'', ''text/plain''), (''class'', ''application/octet-stream''),
     (''conf'', ''text/plain''), (''cpp'', ''text/plain''), (''css'', ''text/css''),
     (''c'', ''text/plain''), (''diff'', ''text/plain''),
     (''dmg'', ''application/x-apple-diskimage''), (''dtd'', ''text/xml''),
     (''dvi'', ''application/x-dvi''), (''ebuild'', ''text/plain''), (''eclass'', ''text/plain''),
     (''gif'', ''image/gif''), (''gz'', ''application/x-gzip''), (''hh'', ''text/plain''),
     (''hpp'', ''text/plain''), (''h'', ''text/plain''), (''html'', ''text/html''),
     (''htm'', ''text/html''), (''ico'', ''image/x-icon''), (''jpeg'', ''image/jpeg''),
     (''jpg'', ''image/jpeg''), (''js'', ''text/javascript''), (''log'', ''text/plain''),
     (''m3u'', ''audio/x-mpegurl''), (''mov'', ''video/quicktime''), (''mp3'', ''audio/mpeg''),
     (''mpeg'', ''video/mpeg''), (''mpg'', ''video/mpeg''), (''ogg'', ''application/ogg''),
     (''pac'', ''application/x-ns-proxy-autoconfig''), (''patch'', ''text/plain''),
     (''pdf'', ''application/pdf''), (''png'', ''image/png''),
     (''ps'', ''application/postscript''), (''qt'', ''video/quicktime''),
     (''rtf'', ''application/rtf''), (''sig'', ''application/pgp-signature''),
     (''spl'', ''application/futuresplash''), (''svg'', ''image/svg+xml''),
     (''svgz'', ''image/svg+xml''), (''swf'', ''application/x-shockwave-flash''),
     (''tar'', ''application/x-tar''), (''tar.bz2'', ''application/x-bzip-compressed-tar''),
     (''tar.gz'', ''application/x-tgz''), (''tar.xz'', ''application/x-xz-compressed-tar''),
     (''tbz'', ''application/x-bzip-compressed-tar''), (''text'', ''text/plain''),
     (''tgz'', ''application/x-tgz''), (''tiff'', ''image/tiff''), (''tif'', ''image/tiff''),
     (''torrent'', ''application/x-bittorrent''), (''txt'', ''text/plain''),
     (''wav'', ''audio/x-wav''), (''wax'', ''audio/x-ms-wax''), (''wma'', ''audio/x-ms-wma''),
     (''wmv'', ''video/x-ms-wmv''), (''xbm'', ''image/x-xbitmap''), (''xml'', ''text/xml''),
     (''xpm'', ''image/x-xpixmap''), (''xwd'', ''image/x-xwindowdump''),
     (''xz'', ''application/x-xz''), (''zip'', ''application/zip'')]"

lemma shipped_words: "list_all (\<lambda>et. is_word (fst et) \<and> is_word (snd et)) shipped_types"
  by code_simp

lemma shipped_distinct: "distinct (map fst shipped_types)"
  by code_simp

lemma shipped_read:
  "\<exists>m. MimeTypeMap (\<lambda>_. FileData (mime_file shipped_types) False) f d = Ok m \<and>
       smap_get (mimetypes m) = map_of shipped_types \<and> default_mimetype m = d"
proof -
  have w: "\<forall>et\<in>set shipped_types. is_word (fst et) \<and> is_word (snd et)"
    using shipped_words by (simp add: list_all_iff)
  have "map_of (rev shipped_types) = map_of shipped_types"
    using shipped_distinct by (subst map_of_inject_set) (simp_all add: rev_map [symmetric])
  then show ?thesis
    by (simp add: MimeTypeMap_def getlines_mime_file [OF w] read_mimetypes_lines [OF w] smap_get_foldl_put)
qed

lemma shipped_robots: "map_of shipped_types ''txt'' = Some ''text/plain''"
  by code_simp

section \<open>The directory of a daemon\<close>

definition at_root :: "process \<Rightarrow> bool" where
  "at_root p \<longleftrightarrow> (\<exists>r. (Chdir ''/'', r) \<in> set (calls p) \<and> r \<noteq> -1)"

lemma at_root_later: "at_root p \<Longrightarrow> calls p' = calls p @ as \<Longrightarrow> at_root p'"
  by (auto simp: at_root_def)

lemma daemonised_at_root:
  assumes "daemonise os D_NO_CLOSE_FILES q = (Some True, p)"
  shows "at_root p"
proof -
  obtain as where as: "calls p = calls q @ as" "daemon_calls D_NO_CLOSE_FILES as"
    using daemonise_part assms by (rule partE) auto
  then have "\<exists>b. (Chdir ''/'', b) \<in> set as \<and> b \<noteq> -1"
    by (fastforce simp: daemon_calls_def D_NO_CHDIR_def D_NO_CLOSE_FILES_def)
  with as(1) show ?thesis by (auto simp: at_root_def)
qed

lemma drop_privs_calls: "drop_privs os user grp p = (ok, p') \<Longrightarrow> \<exists>as. calls p' = calls p @ as"
  using drop_privs_follows [of os user grp p ok p']
  by (cases "find_ids os user grp p") (auto simp: drop_privs_def follows_def alert_def)

lemma settled_at_root:
  assumes "settled e st p" and "get_config_daemon st"
  shows "at_root p"
proof -
  obtain p1 p2 where p: "at_root p1" "write_pid (m_os e) p1 = (True, p2)"
    "drop_privs (m_os e) (get_config_user st) (get_config_group st) p2 = (True, p)"
    using assms daemonised_at_root unfolding settled_def detached_def by blast
  have "at_root p2"
    using p(2) by (intro at_root_later [OF p(1)]) (auto simp: write_pid_def do_call_def Let_def split: if_splits)
  then show ?thesis
    using drop_privs_calls [OF p(3)] at_root_later by blast
qed

text \<open>A system on which the user of the sample exists, and the start of the program there.\<close>

definition demo_sample :: main_env where
  "demo_sample =
     demo_main\<lparr>m_toml := \<lambda>_. Inr sample_table, m_files := \<lambda>_. FileData (mime_file shipped_types) False,
       m_os := demo_os\<lparr>os_passwd := \<lambda>_. Some (501, 20)\<rparr>\<rparr>"

lemma sample_debug: "\<exists>m. set_log_level boost_ref ''debug'' = (True, [], Some m)"
proof -
  have "map_of level_table (map to_upper ''debug'') = Some 7" by code_simp
  then show ?thesis using set_log_level_eq [OF boost_ref_ok, of "''debug''"] by simp
qed

lemma sample_types: "\<exists>types. MimeTypeMap_file (m_files demo_sample) f = Ok types"
  using shipped_read by (auto simp: demo_sample_def demo_main_def MimeTypeMap_file_def)

lemma sample_daemonises: "\<exists>p'. daemonise (m_os demo_sample) D_NO_CLOSE_FILES p = (Some True, p')"
  by (simp add: daemonise_def and_then_def fork_step_def setsid_step_def umask_step_def chdir_step_def
        close_step_def reopen_step_def demo_sample_def demo_os_def do_call_def D_NO_CLOSE_FILES_def
        D_NO_CHDIR_def D_NO_UMASK0_def D_NO_REOPEN_STD_FDS_def Let_def)

lemma sample_settles: "\<exists>s'. settle demo_sample (ServerState sample_table types) s = (Inr (), s')"
  by (simp add: settle_def write_pid_def drop_privs_def find_ids_def set_gid_def set_uid_def Let_def
        demo_sample_def demo_main_def demo_os_def do_call_def sample_values)

lemma sample_network: "\<exists>s'. set_up_network demo_sample (ServerState sample_table types) s = (Inr (), s')"
  by (simp add: set_up_network_def load_server_certificate_def Let_def demo_sample_def demo_main_def)

lemma sample_daemon: "\<exists>s'. become_daemon demo_sample (ServerState sample_table types) s = (Inr (), s')"
  using sample_daemonises [of "m_proc s"] by (auto simp: become_daemon_def Let_def sample_values notify_fork_def)

lemma sample_serves:
  "\<exists>s'. serve demo_sample (ServerState sample_table types) s = (Inl (Returned 0), s') \<and> m_workers s' = Some 1"
  by (simp add: serve_def Let_def with_proc_def demo_sample_def demo_main_def sample_values)

lemma sample_loads: "\<exists>types s'. load_config demo_sample s = (Inr (ServerState sample_table types), s')"
proof -
  obtain types where types: "MimeTypeMap_file (m_files demo_sample) ''mimetypes.txt'' = Ok types"
    using sample_types by blast
  have "m_toml demo_sample f = Inr sample_table" "m_boost demo_sample = boost_ref" for f
    by (simp_all add: demo_sample_def demo_main_def)
  moreover have "get_config_log_level (ServerState sample_table types) = ''debug''"
    by (simp add: config_defs ServerState_def sample_table_def)
  ultimately show ?thesis using types sample_debug by (auto simp: load_config_def Let_def)
qed

lemma sample_runs: "\<exists>s. main demo_sample demo_process = (Returned 0, s) \<and> m_workers s = Some 1"
proof -
  obtain s1 where 1: "check_running demo_sample (start demo_process) = (Inr (), s1)"
    by (auto simp: check_running_def check_pid_def start_def demo_process_def demo_sample_def)
  obtain types s2 where 2: "load_config demo_sample s1 = (Inr (ServerState sample_table types), s2)"
    using sample_loads by blast
  obtain s3 where 3: "set_up_network demo_sample (ServerState sample_table types) s2 = (Inr (), s3)"
    using sample_network by blast
  obtain s4 where 4: "become_daemon demo_sample (ServerState sample_table types) s3 = (Inr (), s4)"
    using sample_daemon by blast
  obtain s5 where 5: "settle demo_sample (ServerState sample_table types) s4 = (Inr (), s5)"
    using sample_settles by blast
  from sample_serves [of types s5] 1 2 3 4 5 show ?thesis
    by (auto simp: main_def main_stages_def prepare_def and_stage_def)
qed

section \<open>Property\<close>

text \<open>
  A daemon serves from the root directory: every relative path of its configuration, such as the
  path of the database in the sample, is resolved there, and not in the directory where
  \<^verbatim>\<open>config.toml\<close> was read.
\<close>

theorem daemon_serves_at_root:
  assumes "main e p = (out, s)" and "m_workers s = Some n"
    and "m_toml e ''config.toml'' = Inr config" and "toml_bool config ''config'' ''daemon'' = Some True"
  shows "at_root (m_proc s)"
proof -
  obtain st t where t: "settled e st (m_proc t)" "from_files e st" "serve e st t = (Inl out, s)"
    using main_runs [OF assms(1)] assms(2) by (auto simp: stops_well_def)
  have "get_config_daemon st"
    using t(2) assms(3,4) by (auto simp: from_files_def config_defs ServerState_def)
  then have "at_root (m_proc t)" using settled_at_root t(1) by blast
  then show ?thesis
    using serve_cases [of e st t out s] t(3) at_root_later [of "m_proc t"]
    by (auto simp: with_proc_def remove_pid_def do_call_def Let_def split: if_splits)
qed

theorem daemon_serves_at_root_witness:
  "\<exists>s. main demo_sample demo_process = (Returned 0, s) \<and> at_root (m_proc s)"
proof -
  obtain s where s: "main demo_sample demo_process = (Returned 0, s)" "m_workers s = Some 1"
    using sample_runs by blast
  have "m_toml demo_sample ''config.toml'' = Inr sample_table"
    "toml_bool sample_table ''config'' ''daemon'' = Some True"
    by (simp_all add: demo_sample_def sample_table_def)
  with daemon_serves_at_root [OF s] s(1) show ?thesis by blast
qed

end
