(* ===== verification/Forms.thy ===== *)
theory Forms
  imports Shortener
begin

text \<open>
  From the body of a POST to the URL that is stored, for both kinds of forms: what
  \<open>request_url\<close> finds in a form a browser encodes, and in a multipart form whose data may come in
  pieces.
\<close>

section \<open>Headers of a multipart form\<close>

text \<open>The content type with its boundary, and the one header of a field named \<open>n\<close>.\<close>

definition multipart_header :: "string \<Rightarrow> string" where
  "multipart_header bd = ''multipart/form-data; boundary='' @ bd"

definition field_headers :: "string \<Rightarrow> (string \<times> string) list" where
  "field_headers n =
     [(''Content-Disposition'', render_header [(''form-data'', Standalone), (''name'', PStr n)])]"

lemma boundary_param:
  assumes "boost_ok b" and "hd bd \<noteq> CHR 0x22" and "bd \<noteq> []"
  shows "header_param b ('' boundary='' @ bd) = (''boundary'', PStr bd)"
proof -
  have "bs_trim_left b ('' boundary='' @ bd) = ''boundary'' @ CHR ''='' # bd"
    using assms(1) by (simp add: bs_trim_left_eq is_space_def)
  moreover have "header_param_value bd = bd"
    using assms(2,3) by (cases bd) (simp_all add: header_param_value_def str_at_def)
  ultimately show ?thesis
    by (simp add: header_param_def)
qed

lemma parse_boundary:
  assumes "boost_ok b" and "hd bd \<noteq> CHR 0x22" and "bd \<noteq> []" and "CHR '';'' \<notin> set bd"
  shows "\<exists>m. parse_header_value b (multipart_header bd) = HParams m \<and> smap_get m ''boundary'' = Some (PStr bd)"
proof -
  have "split_on CHR '';'' (''multipart/form-data'' @ CHR '';'' # ('' boundary='' @ bd)) =
      ''multipart/form-data'' # split_on CHR '';'' ('' boundary='' @ bd)"
    by (rule split_on_append) simp
  also have "split_on CHR '';'' ('' boundary='' @ bd) = ['' boundary='' @ bd]"
    using assms(4) by (intro split_on_free) simp
  finally have "split_on CHR '';'' (multipart_header bd) = [''multipart/form-data'', '' boundary='' @ bd]"
    by (simp add: multipart_header_def)
  then show ?thesis
    using boundary_param [OF assms(1-3)] assms(1)
    by (simp add: parse_header_value_eq smap_get_foldl_put split: prod.split)
qed

lemma field_name:
  assumes "boost_ok b" and "CHR '';'' \<notin> set n"
  shows "\<exists>m. smap_get (part_headers b (field_headers n) []) ''Content-Disposition'' = Some (HParams m) \<and>
             smap_get m ''name'' = Some (PStr n)"
proof -
  have "\<forall>kv\<in>set [(''form-data'', Standalone), (''name'', PStr n)]. param_ok kv"
    using assms(2) by (simp add: param_ok_def is_space_def)
  from parse_rendered [OF assms(1) _ this] obtain m
    where m: "parse_header_value b (render_header [(''form-data'', Standalone), (''name'', PStr n)]) = HParams m"
      "smap_get m = map_of (rev [(''form-data'', Standalone), (''name'', PStr n)])"
    by blast
  then show ?thesis by (simp add: part_headers_def field_headers_def)
qed

lemma section_url_pieces: "section_url (map (\<lambda>d. \<lparr>sec_headers = [], sec_data = d\<rparr>) ds @ ss) = section_url ss"
  by (induction ds) simp_all

text \<open>A field as the library reports it: its name, and its data in one piece or more.\<close>

definition field_sections :: "boost_str \<Rightarrow> string \<times> string \<times> string list \<Rightarrow> multipart_section list" where
  "field_sections b = (\<lambda>(n, d, ds). \<lparr>sec_headers = part_headers b (field_headers n) [], sec_data = d\<rparr> #
     map (\<lambda>d. \<lparr>sec_headers = [], sec_data = d\<rparr>) ds)"

definition field_events :: "string \<times> string \<times> string list \<Rightarrow> mp_event list" where
  "field_events = (\<lambda>(n, d, ds). chunked_events (field_headers n, d, ds))"

lemma section_url_fields:
  assumes "boost_ok b" and "\<forall>f\<in>set fs. CHR '';'' \<notin> set (fst f)"
  shows "section_url (concat (map (field_sections b) fs)) =
         (case map_of fs ''url'' of None \<Rightarrow> [] | Some (d, ds) \<Rightarrow> d)"
  using assms(2)
proof (induction fs)
  case (Cons f fs)
  obtain n d ds where f: "f = (n, d, ds)" by (cases f)
  with Cons.prems obtain m where "smap_get (part_headers b (field_headers n) []) ''Content-Disposition'' = Some (HParams m)"
    "smap_get m ''name'' = Some (PStr n)"
    using field_name [OF assms(1), of n] by auto
  with Cons f show ?case by (simp add: field_sections_def section_url_pieces)
qed simp

lemma multipart_type_checks:
  "multipart_header bd \<noteq> form_type" "starts_with (multipart_header bd) multipart_type"
  by (simp_all add: multipart_header_def form_type_def multipart_type_def)

text \<open>What is found in a form that a browser encodes.\<close>

lemma request_url_form:
  assumes "escaper esc" and "boost_ok (boost e)" and "kvs \<noteq> []" and "\<forall>kv\<in>set kvs. fst kv \<noteq> []" and "length kvs \<le> 1001"
    and "req_field req ''Content-Type'' = form_type" and "req_body req = encode_form esc kvs"
  shows "request_url e req =
         Ok (case map_of (rev kvs) ''url'' of None \<Rightarrow> Inl ''No URL parameter passed'' | Some u \<Rightarrow> Inr u)"
proof -
  have "length kvs \<le> Suc default_maxparams" using assms(5) by (simp add: default_maxparams_def)
  then obtain m where "parse_qsl (boost e) (encode_form esc kvs) default_maxparams = Ok m" "smap_get m = map_of (rev kvs)"
    using parse_encode_form [OF assms(1-4)] by blast
  then show ?thesis
    using assms(6,7) by (simp add: request_url_def form_url_def split: option.split)
qed

section \<open>Properties\<close>

text \<open>
  C27: A form reaches the store: from the body that encodes a list of fields (names not
  empty, at most 1001 of them), as a browser does it or in any other encoding of the bytes,
  \<open>request_url\<close> takes the last field named \<^verbatim>\<open>url\<close>, with exactly the bytes that were
  encoded, and without one it answers that the parameter is missing.
\<close>

theorem form_url_found:
  assumes "escaper esc" and "boost_ok (boost e)" and "kvs \<noteq> []" and "\<forall>kv\<in>set kvs. fst kv \<noteq> []" and "length kvs \<le> 1001"
    and "req_field req ''Content-Type'' = form_type" and "req_body req = encode_form esc kvs"
  shows "request_url e req =
         Ok (case map_of (rev kvs) ''url'' of None \<Rightarrow> Inl ''No URL parameter passed'' | Some u \<Rightarrow> Inr u)"
  by (rule request_url_form [OF assms])

theorem form_url_found_witness:
  "request_url demo_env (demo_post\<lparr>req_body := encode_form form_char [(''url'', ''http://x.y/?a=1&b c''), (''q'', ''1'')]\<rparr>) =
     Ok (Inr ''http://x.y/?a=1&b c'')"
proof -
  have "request_url demo_env (demo_post\<lparr>req_body := encode_form form_char [(''url'', ''http://x.y/?a=1&b c''), (''q'', ''1'')]\<rparr>) =
      Ok (case map_of (rev [(''url'', ''http://x.y/?a=1&b c''), (''q'', ''1'')]) ''url'' of
            None \<Rightarrow> Inl ''No URL parameter passed'' | Some u \<Rightarrow> Inr u)"
    by (rule form_url_found) (simp_all add: demo_post_def)
  then show ?thesis by simp
qed

text \<open>
  C28: From a multipart form, whose fields the parser library reports each with its header and its
  data in one or more pieces, \<open>request_url\<close> takes the first piece of the first field named
  \<^verbatim>\<open>url\<close>: the whole value when it comes in one piece, and a truncated one otherwise. Without
  such a field, or when the piece is empty, it answers that no URL was specified.
\<close>

theorem multipart_url_found:
  assumes "boost_ok (boost e)" and "bd \<noteq> []" and "hd bd \<noteq> CHR 0x22" and "CHR '';'' \<notin> set bd"
    and "req_field req ''Content-Type'' = multipart_header bd"
    and "parser e (cstr bd) (bs_trim_right (boost e) (req_body req)) = concat (map field_events fs)"
    and "\<forall>f\<in>set fs. CHR '';'' \<notin> set (fst f)"
  shows "request_url e req =
         Ok (case map_of fs ''url'' of
               None \<Rightarrow> Inl ''No URL specified''
             | Some (u, ds) \<Rightarrow> if u = [] then Inl ''No URL specified'' else Inr u)"
proof -
  obtain m where m: "parse_header_value (boost e) (multipart_header bd) = HParams m" "smap_get m ''boundary'' = Some (PStr bd)"
    using parse_boundary [OF assms(1,3,2,4)] by blast
  have "parser e (cstr bd) (bs_trim_right (boost e) (req_body req)) =
      concat (map chunked_events (map (\<lambda>(n, d, ds). (field_headers n, d, ds)) fs))"
    using assms(6) by (simp add: field_events_def o_def case_prod_unfold)
  from sections_of_chunks [where parser = "parser e" and b = "boost e", OF this]
  have "get_data (ingest (boost e) (parser e) (bs_trim_right (boost e) (req_body req)) (MultiPartData bd)) =
      concat (map (field_sections (boost e)) fs)"
    by (simp add: o_def case_prod_unfold field_sections_def)
  then have "multipart_url e req (multipart_header bd) =
      (let url = (case map_of fs ''url'' of None \<Rightarrow> [] | Some (d, ds) \<Rightarrow> d) in
       if url = [] then Inl ''No URL specified'' else Inr url)"
    using m assms(2) section_url_fields [OF assms(1,7)] by (simp add: multipart_url_def)
  then show ?thesis
    using assms(5) multipart_type_checks by (simp add: request_url_def Let_def split: option.split)
qed

theorem multipart_url_found_witness:
  "request_url
     (demo_env\<lparr>parser := (\<lambda>_ _. field_events (''q'', ''1'', []) @ field_events (''url'', ''http://a'', [''/b-c'']))\<rparr>)
     (demo_post\<lparr>req_field := (\<lambda>_. multipart_header ''--x'')\<rparr>) = Ok (Inr ''http://a'')"
proof -
  let ?fs = "[(''q'', ''1'', []), (''url'', ''http://a'', [''/b-c''])]"
  let ?e = "demo_env\<lparr>parser := (\<lambda>_ _. field_events (''q'', ''1'', []) @ field_events (''url'', ''http://a'', [''/b-c'']))\<rparr>"
  have "request_url ?e (demo_post\<lparr>req_field := (\<lambda>_. multipart_header ''--x'')\<rparr>) =
      Ok (case map_of ?fs ''url'' of
            None \<Rightarrow> Inl ''No URL specified''
          | Some (u, ds) \<Rightarrow> if u = [] then Inl ''No URL specified'' else Inr u)"
    by (rule multipart_url_found [where bd = "''--x''"]) simp_all
  then show ?thesis by simp
qed

end
