(* ===== verification/Pages.thy ===== *)
theory Pages
  imports Service
begin

text \<open>
  What a client sees: the form every response has, static files, the page after a post, and the
  answer to a lookup that fails.
\<close>

section \<open>Files\<close>

text \<open>The answer to a file request as a function of the method and of what opening gave, where it is defined.\<close>

definition file_path :: "('d, 't) env \<Rightarrow> request \<Rightarrow> string" where
  "file_path e req = path_cat (get_config_doc_root (state e)) (req_target req)"

definition file_response :: "('d, 't) env \<Rightarrow> request \<Rightarrow> verb \<Rightarrow> open_result \<Rightarrow> response option" where
  "file_response e req v opened =
     (let ver = beast_version e in
      case opened of
        NoSuchFile \<Rightarrow> Some (not_found ver req (req_target req))
      | OpenError \<Rightarrow> None
      | Opened sz \<Rightarrow>
          Some (if v = Head then ok_head_file ver req (file_path e req) sz (state e)
                else ok_get_file ver req (file_path e req) sz (state e)))"

lemma file_sent:
  assumes "find_route routes (req_target req) = Some HandleFile" and "\<not> illegal_target (req_target req)"
    and "v = Get \<or> v = Head"
  shows "case file_response e req v (file_open e (cstr (file_path e req))) of
      None \<Rightarrow> handle_request e (req\<lparr>req_method := v\<rparr>) w = UB
    | Some r \<Rightarrow> \<exists>w'. handle_request e (req\<lparr>req_method := v\<rparr>) w = Ok w' \<and> db w' = db w \<and> sent w' = sent w @ [r]"
  using assms
  by (cases "file_open e (cstr (file_path e req))")
     (auto simp: handle_request_eq handle_file_def file_response_def file_path_def Let_def response_defs)

lemma head_drops_body:
  "file_response e req Head opened =
     (case opened of Opened sz \<Rightarrow> map_option (\<lambda>r. r\<lparr>res_body := EmptyBody\<rparr>) (file_response e req Get opened)
                   | _ \<Rightarrow> file_response e req Get opened)"
  by (cases opened) (simp_all add: file_response_def Let_def response_defs)

lemma legal_asset: "\<not> has_substr t ''..'' \<Longrightarrow> \<not> illegal_target (CHR ''/'' # t)"
  by (auto simp: illegal_target_def str_at_def split: if_splits)

section \<open>The form of the responses\<close>

interpretation typed: responder "handle_request e" sent "\<lambda>req. response_ok (req_method req)" "store_inv rows e"
  for e :: "('d, 't) env" and rows
proof unfold_locales
  fix w w' :: "'d world" and r
  assume inv: "store_inv rows e w" and ok: "handle_request e r w = Ok w'"
  show "store_inv rows e w'"
    by (rule shortener.step_inv [OF inv ok])
  show "\<exists>m. sent w' = sent w @ [m] \<and> response_ok (req_method r) m"
    using handle_request_effect [OF _ ok] inv by (auto simp: replied_def store_inv_def)
qed

section \<open>A lookup that fails\<close>

text \<open>SQLite whose steps all find the file locked.\<close>

definition busy_sqlite :: "(string \<Rightarrow> url_rows) sqlite" where
  "busy_sqlite = sqlite_ref\<lparr>sqlite3_step := (\<lambda>d h stmt binds. (5, None, d))\<rparr>"

lemma busy_sqlite_ok: "sqlite_ok busy_sqlite (\<lambda>d. d)"
  by (simp add: sqlite_ok_def insert_ok_def select_ok_def busy_sqlite_def sqlite_ref_def sqlite_codes)

text \<open>A page that repeats the target of its request as it came.\<close>

lemma not_found_echoes:
  assumes "find_route routes (req_target req) = None" and "\<not> illegal_target (req_target req)"
  shows "\<exists>w' r. handle_request e req w = Ok w' \<and> sent w' = sent w @ [r] \<and>
           smap_get (res_fields r) ''Content-Type'' = Some ''text/html'' \<and>
           res_body r = StringBody (''The resource '' @ [CHR 0x27] @ req_target req @ [CHR 0x27] @ '' was not found.'')"
  using assms by (simp add: handle_request_eq response_defs)

lemma script_not_routed:
  "find_route routes ''/a/<script>'' = None \<and> \<not> illegal_target ''/a/<script>''"
  by code_simp

section \<open>Properties\<close>

text \<open>
  C21: Every response of every handler is well formed: one of five statuses; a page is HTML with its
  length computed; a file or its head comes with length and type; a redirect answers a GET, has a
  target and no body; and no success answers a HEAD with a body. An error page may answer a HEAD with
  a body.
\<close>

theorem responses_well_formed:
  assumes "store_inv rows e w" and "run_steps (handle_request e) reqs w = Ok w'"
  shows "\<exists>rs. sent w' = sent w @ rs \<and> list_all2 (\<lambda>req. response_ok (req_method req)) reqs rs"
  by (rule typed.run_replies [OF assms])

theorem responses_well_formed_witness:
  "\<exists>w' r. run_steps (handle_request demo_env) [demo_post] demo_world = Ok w' \<and> sent w' = [r] \<and> response_ok Post r"
proof -
  obtain w' where run: "run_steps (handle_request demo_env) [demo_post] demo_world = Ok w'"
    using demo_post_returns by auto
  from responses_well_formed [OF demo_store_inv this] obtain rs
    where "sent w' = sent demo_world @ rs" "list_all2 (\<lambda>req. response_ok (req_method req)) [demo_post] rs"
    by blast
  with run show ?thesis
    by (auto simp: list_all2_Cons1 demo_world_def demo_post_def)
qed

text \<open>
  C29: A HEAD of a static file is answered like a GET of it, with all fields and the length of the
  file but without the body; a missing file is answered the same way for both; neither touches the
  database; and when opening fails otherwise, the behaviour of both is undefined.
\<close>

theorem head_matches_get:
  assumes "find_route routes (req_target req) = Some HandleFile" and "\<not> illegal_target (req_target req)"
  shows "if file_open e (cstr (path_cat (get_config_doc_root (state e)) (req_target req))) = OpenError
         then handle_request e (req\<lparr>req_method := Get\<rparr>) w = UB \<and> handle_request e (req\<lparr>req_method := Head\<rparr>) w = UB
         else \<exists>g wg wh. handle_request e (req\<lparr>req_method := Get\<rparr>) w = Ok wg \<and> sent wg = sent w @ [g] \<and>
           handle_request e (req\<lparr>req_method := Head\<rparr>) w = Ok wh \<and> db wg = db w \<and> db wh = db w \<and>
           sent wh = sent w @ [if res_status g = 200 then g\<lparr>res_body := EmptyBody\<rparr> else g]"
proof -
  define opened where "opened = file_open e (cstr (path_cat (get_config_doc_root (state e)) (req_target req)))"
  have get: "case file_response e req Get opened of None \<Rightarrow> handle_request e (req\<lparr>req_method := Get\<rparr>) w = UB
    | Some r \<Rightarrow> \<exists>w'. handle_request e (req\<lparr>req_method := Get\<rparr>) w = Ok w' \<and> db w' = db w \<and> sent w' = sent w @ [r]"
    and head: "case file_response e req Head opened of None \<Rightarrow> handle_request e (req\<lparr>req_method := Head\<rparr>) w = UB
    | Some r \<Rightarrow> \<exists>w'. handle_request e (req\<lparr>req_method := Head\<rparr>) w = Ok w' \<and> db w' = db w \<and> sent w' = sent w @ [r]"
    using file_sent [OF assms, of Get e w] file_sent [OF assms, of Head e w]
    by (simp_all add: opened_def file_path_def)
  show ?thesis
  proof (cases opened)
    case (Opened sz)
    then obtain g where g: "file_response e req Get opened = Some g" "res_status g = 200"
      by (simp add: file_response_def Let_def)
    then have "file_response e req Head opened = Some (g\<lparr>res_body := EmptyBody\<rparr>)"
      using Opened by (simp add: head_drops_body)
    with get head g Opened show ?thesis by (auto simp: opened_def)
  next
    case NoSuchFile
    then obtain g where g: "file_response e req Get opened = Some g" "res_status g \<noteq> 200"
      by (simp add: file_response_def Let_def)
    then have "file_response e req Head opened = Some g"
      using NoSuchFile by (simp add: head_drops_body)
    with get head g NoSuchFile show ?thesis by (auto simp: opened_def)
  qed (use get head in \<open>simp add: file_response_def opened_def Let_def\<close>)
qed

theorem head_matches_get_witness:
  "\<exists>g wh. handle_request (demo_env\<lparr>file_open := (\<lambda>_. Opened 7)\<rparr>)
            ((demo_get ''/robots.txt'')\<lparr>req_method := Head\<rparr>) demo_world = Ok wh \<and>
          sent wh = [g] \<and> res_status g = 200 \<and> res_body g = EmptyBody \<and> res_content_length g = Some 7"
proof -
  let ?e = "demo_env\<lparr>file_open := (\<lambda>_. Opened 7)\<rparr>" and ?r = "demo_get ''/robots.txt''"
  have route: "find_route routes (req_target ?r) = Some HandleFile" "\<not> illegal_target (req_target ?r)"
    by code_simp+
  have "handle_request ?e (?r\<lparr>req_method := Get\<rparr>) demo_world = Ok wg \<Longrightarrow> sent wg = [g] \<Longrightarrow>
      res_status g = 200 \<and> res_content_length g = Some 7" for wg g
    using file_sent [OF route, of Get ?e demo_world]
    by (auto simp: file_response_def response_defs Let_def demo_world_def)
  with head_matches_get [OF route, of ?e demo_world] show ?thesis
    by (fastforce simp: demo_world_def)
qed

text \<open>
  The page after a post: when SQLite does not fail and neither the token nor the URL is stored
  yet, the link is stored first, and then the template of the page answers, given the host name,
  the URL as posted and the token just stored. A template that fails is answered with an error
  although the link stays stored.
\<close>

theorem post_shows_link:
  assumes "env_ok rows e" and "sqlite_available (sql e) rows"
    and "req_method p = Post" and "req_target p = ''/post.html''"
    and "request_url e p = Ok (Inr url)" and "http_url url"
    and "generate_random_filename (boost e) (rand e) (rd_count w) = Some (token, n)"
    and "token \<notin> fst ` set (table rows e w)" and "cstr url \<notin> snd ` set (table rows e w)"
  shows "\<exists>w' data. handle_request e p w = Ok w' \<and> table rows e w' = table rows e w @ [(token, cstr url)] \<and>
           sent w' = sent w @ [page_response e p (path_cat (get_config_doc_root (state e)) ''/post.html'') data] \<and>
           smap_get data = [''hostname'' \<mapsto> get_config_hostname (state e), ''url'' \<mapsto> url, ''token'' \<mapsto> token]"
proof -
  have "smap_get (post_data e url token) =
      [''hostname'' \<mapsto> get_config_hostname (state e), ''url'' \<mapsto> url, ''token'' \<mapsto> token]"
    by (simp add: post_data_def smap_get_put fun_eq_iff)
  then show ?thesis
    using post_available [OF assms(1-6), of w] assms(7-9) unfolding stores_def by auto
qed

theorem post_shows_link_witness:
  "\<exists>w' token. handle_request demo_env demo_post demo_world = Ok w' \<and> db w' ''urls.db'' = [(token, ''http://a.b'')] \<and>
     sent w' = [ok_string (beast_version demo_env) demo_post ''./post.html'']"
proof -
  obtain token n where token:
    "generate_random_filename (boost demo_env) (rand demo_env) (rd_count demo_world) = Some (token, n)"
    using generate_random_filename_token [OF boost_ref_ok rng_low_ok, of "rd_count demo_world"] by auto
  have "\<exists>w' data. handle_request demo_env demo_post demo_world = Ok w' \<and>
      table (\<lambda>d. d) demo_env w' = table (\<lambda>d. d) demo_env demo_world @ [(token, cstr ''http://a.b'')] \<and>
      sent w' = sent demo_world @ [page_response demo_env demo_post
        (path_cat (get_config_doc_root (state demo_env)) ''/post.html'') data] \<and>
      smap_get data = [''hostname'' \<mapsto> get_config_hostname (state demo_env), ''url'' \<mapsto> ''http://a.b'', ''token'' \<mapsto> token]"
    by (rule post_shows_link [OF demo_env_ok _ _ _ demo_request_url demo_http token])
       (simp_all add: demo_post_def)
  moreover have "page_response demo_env demo_post ''./post.html'' data =
      ok_string (beast_version demo_env) demo_post ''./post.html''" for data
    by (simp add: page_response_def demo_env_def)
  moreover have "path_cat ''.'' ''/post.html'' = ''./post.html''" by (simp add: path_cat_def)
  moreover have "cstr ''http://a.b'' = ''http://a.b''" by (simp add: cstr_def NUL_def)
  ultimately show ?thesis by (auto simp: demo_world_def)
qed

text \<open>
  C33: An error of SQLite while it looks a token up, a lock for instance, is not reported: when the
  connection can be opened and the statement prepared and bound, every result of the step that is
  not a row redirects the client permanently to the fixed video, even when the token is stored.
\<close>

theorem failed_lookup_redirects:
  assumes "sqlite_ok (sql e) rows"
    and "\<forall>d p. sqlite3_open (sql e) d p = (SQLITE_OK, True)"
    and "\<forall>d p. sqlite3_prepare (sql e) d (Some p) select_sql = SQLITE_OK"
    and "\<forall>d p i v. sqlite3_bind_text (sql e) d (Some p) select_sql i v = SQLITE_OK"
    and "\<forall>d p binds. fst (sqlite3_step (sql e) d (Some p) select_sql binds) \<noteq> SQLITE_ROW"
    and "req_method req = Get" and "req_target req = CHR ''/'' # t" and "is_token t"
  shows "\<exists>w'. handle_request e req w = Ok w' \<and> rows (db w') = rows (db w) \<and>
           sent w' = sent w @ [redirect_permanent (beast_version e) req rickroll]"
proof -
  obtain rc col d' where st: "sqlite3_step (sql e) (db w) (Some (db_file e)) select_sql [(1, cstr t)] = (rc, col, d')"
    by (metis prod_cases3)
  then have "rc \<noteq> SQLITE_ROW" using assms(5) by (metis fst_conv)
  with st assms(2-4,6,7) have "\<exists>w'. handle_get_url e req w = Ok w' \<and> db w' = d' \<and>
      sent w' = sent w @ [redirect_permanent (beast_version e) req rickroll]"
    by (simp add: handle_get_url_eq make_sqlite3_handle_def bind_text_def step_select_def SQLITE_OK_def
        Let_def io_def close_handle_def send_def)
  moreover have "handle_request e req w = handle_get_url e req w"
    using token_route [OF assms(8)] assms(7) by (simp add: handle_request_eq)
  ultimately show ?thesis using select_step(1) [OF assms(1) st] by auto
qed

theorem failed_lookup_redirects_witness:
  "\<exists>t w'. is_token t \<and> db (full_world t) ''urls.db'' = [(t, ''http://a.b'')] \<and>
     handle_request (demo_env\<lparr>sql := busy_sqlite\<rparr>) (demo_get (CHR ''/'' # t)) (full_world t) = Ok w' \<and>
     sent w' = [redirect_permanent (beast_version demo_env) (demo_get (CHR ''/'' # t)) rickroll]"
proof -
  obtain t where t: "is_token t" using demo_post_returns by blast
  have "\<exists>w'. handle_request (demo_env\<lparr>sql := busy_sqlite\<rparr>) (demo_get (CHR ''/'' # t)) (full_world t) = Ok w' \<and>
      db w' = db (full_world t) \<and>
      sent w' = sent (full_world t) @
        [redirect_permanent (beast_version (demo_env\<lparr>sql := busy_sqlite\<rparr>)) (demo_get (CHR ''/'' # t)) rickroll]"
    by (rule failed_lookup_redirects [OF _ _ _ _ _ _ _ t])
       (use busy_sqlite_ok in \<open>simp_all add: busy_sqlite_def sqlite_ref_def demo_get_def sqlite_codes\<close>)
  with t show ?thesis by (auto simp: full_world_def demo_world_def)
qed

end
