(* ===== verification/Site.thy ===== *)
theory Site
  imports Forms Pages
begin

text \<open>
  What the repository ships beside the code: the table that \<^verbatim>\<open>init.sh\<close> creates and the two
  pages of \<^verbatim>\<open>server/\<close>, as templates whose text and variables are those of the files. The
  template engine stays a parameter; of it, \<open>renders\<close> assumes what its documentation says of
  \<^verbatim>\<open>{{ x }}\<close>. With them, a visitor's way from the form to the redirect can be followed to its
  end.
\<close>

section \<open>The table\<close>

text \<open>A column as \<^verbatim>\<open>CREATE TABLE\<close> declares it, and an insertion that keeps the constraints.\<close>

record column =
  col_name :: string
  col_unique :: bool
  col_not_null :: bool

definition urls_columns :: "column list" where
  "urls_columns =
     [\<lparr>col_name = ''token'', col_unique = True, col_not_null = True\<rparr>,
      \<lparr>col_name = ''url'', col_unique = True, col_not_null = True\<rparr>]"

type_synonym table_row = "string option list"

definition col_violated :: "table_row list \<Rightarrow> table_row \<Rightarrow> nat \<times> column \<Rightarrow> bool" where
  "col_violated tab row = (\<lambda>(i, c).
     (col_not_null c \<and> row ! i = None) \<or>
     (col_unique c \<and> row ! i \<noteq> None \<and> list_ex (\<lambda>r. r ! i = row ! i) tab))"

definition insert_row :: "column list \<Rightarrow> table_row list \<Rightarrow> table_row \<Rightarrow> table_row list option" where
  "insert_row cs tab row = (if list_ex (col_violated tab row) (enumerate 0 cs) then None else Some (tab @ [row]))"

definition as_rows :: "url_rows \<Rightarrow> table_row list" where
  "as_rows tab = map (\<lambda>(t, u). [Some t, Some u]) tab"

lemma insert_urls:
  "insert_row urls_columns (as_rows tab) [Some t, Some u] =
     (if t \<in> fst ` set tab \<or> u \<in> snd ` set tab then None else Some (as_rows (tab @ [(t, u)])))"
  by (force simp: insert_row_def urls_columns_def as_rows_def col_violated_def list_ex_iff)

text \<open>
  The constraints of the table are what \<open>insert_ok\<close> assumes of SQLite: its instance inserts a link
  exactly when the table takes the row.
\<close>

theorem schema_decides_insert:
  "sqlite3_step sqlite_ref d (Some p) insert_sql [(2, u), (1, t)] =
     (case insert_row urls_columns (as_rows (d p)) [Some t, Some u] of
        None \<Rightarrow> (19, None, d)
      | Some tab \<Rightarrow> (SQLITE_DONE, None, d(p := d p @ [(t, u)])))"
  by (simp add: insert_urls sqlite_ref_insert)

section \<open>The pages\<close>

datatype piece = Text string | Hole string

fun fill :: "piece list \<Rightarrow> (string \<Rightarrow> string option) \<Rightarrow> string" where
  "fill [] data = []"
| "fill (Text t # ps) data = t @ fill ps data"
| "fill (Hole v # ps) data = (case data v of None \<Rightarrow> [] | Some x \<Rightarrow> x) @ fill ps data"

fun holes :: "piece list \<Rightarrow> string list" where
  "holes [] = []"
| "holes (Text t # ps) = holes ps"
| "holes (Hole v # ps) = v # holes ps"

lemma fill_append [simp]: "fill (ps @ qs) data = fill ps data @ fill qs data"
  by (induction ps data rule: fill.induct) simp_all

lemma holes_append [simp]: "holes (ps @ qs) = holes ps @ holes qs"
  by (induction ps rule: holes.induct) simp_all

definition line :: "nat \<Rightarrow> piece list \<Rightarrow> piece list" where
  "line n ps = Text (replicate n CHR 0x09) # ps @ [Text [CHR 0x0A]]"

lemma holes_line [simp]: "holes (line n ps) = holes ps"
  by (simp add: line_def)

definition post_head :: "piece list" where
  "post_head =
     line 0 [Text ''<!doctype html>''] @
     line 0 [Text ''<html lang=\"en\">''] @
     line 1 [Text ''<head>''] @
     line 2 [Text ''<meta name=\"viewport\" content=\"width=device-width, initial-scale=1\">''] @
     line 2 [Text ''<meta charset=\"utf-8\">''] @
     line 2 [Text ''<meta name=\"author\" content=\"Elizabeth Myers\">''] @
     line 2 [Text ''<title>Success</title>''] @
     line 1 [Text ''</head>''] @
     line 1 [Text ''<body>''] @
     line 2 [Text ''<h1>Success!</h1>''] @
     line 2 [Text ''<p>'']"

definition post_link :: "piece list" where
  "post_link =
     line 3 [Text ''<strong><a href=\"http://'', Hole ''hostname'', Text ''/'', Hole ''token'', Text ''\">http://'',
       Hole ''hostname'', Text ''/'', Hole ''token'',
       Text ''</a></strong> goes to <strong><a href=\"'', Hole ''url'', Text ''\">'', Hole ''url'', Text ''</a></strong>.'']"

definition post_foot :: "piece list" where
  "post_foot =
     line 3 [Text ''<br><br>''] @
     line 3 [Text ''<a href=\"http://'', Hole ''hostname'', Text ''/\">Make another URL shady?</a>''] @
     line 2 [Text ''</p>''] @
     line 1 [Text ''</body>''] @
     line 0 [Text ''</html>'']"

definition post_html :: "piece list" where
  "post_html = post_head @ post_link @ post_foot"

definition index_html :: "piece list" where
  "index_html =
     line 0 [Text ''<!doctype html>''] @
     line 0 [Text ''<html lang=\"en\">''] @
     line 1 [Text ''<head>''] @
     line 2 [Text ''<meta name=\"viewport\" content=\"width=device-width, initial-scale=1\">''] @
     line 2 [Text ''<meta charset=\"utf-8\">''] @
     line 2 [Text ''<meta name=\"description\" content=\"A thing that makes URLs shady\">''] @
     line 2 [Text ''<meta name=\"author\" content=\"Elizabeth Myers\">''] @
     line 2 [Text ''<meta property=\"og:title\" content=\"Make your URLs shady\">''] @
     line 2 [Text ''<meta property=\"og:type\" content=\"website\">''] @
     line 2 [Text ''<meta property=\"og:url\" content=\"https://'', Hole ''hostname'', Text ''\">''] @
     line 2 [Text ''<meta property=\"og:description\" content=\"A thing that makes URLs shady\">''] @
     line 2 [Text ''<title>Make your URLs shady</title>''] @
     line 1 [Text ''</head>''] @
     line 1 [Text ''<body>''] @
     line 2 [Text ''<p>''] @
     line 3 [Text ''<h1>'', Hole ''hostname'', Text ''</h1>''] @
     line 3 [Text ''<h2>Make your URLs shady</h2>''] @
     line 3 [Text ''<form action=\"/post.html\" method=\"post\">''] @
     line 4 [Text ''<label for=\"url\">URL (must start with http(s)://):</label>''] @
     line 4 [Text ''<input type=\"text\" id=\"url\" name=\"url\"><br><br>''] @
     line 4 [Text ''<input type=\"submit\" value=\"Submit\">''] @
     line 3 [Text ''</form>''] @
     line 2 [Text ''</p>''] @
     line 2 [Text ''<p>''] @
     line 3 [Text ''<h5>Made with spite and malice by <a href=\"https://social.naln1.ca/Elizafox\">Elizabeth Myers</a> in C++.</h5>''] @
     line 2 [Text ''</p>''] @
     line 1 [Text ''</body>''] @
     line 0 [Text ''</html>'']"

lemma page_holes:
  "set (holes post_html) = {''hostname'', ''token'', ''url''}" "set (holes index_html) = {''hostname''}"
  by (auto simp: post_html_def post_head_def post_link_def post_foot_def index_html_def)

text \<open>
  The engine prints a variable as it is, without escaping; a template all of whose variables are in
  the data renders.
\<close>

definition renders :: "'t inja \<Rightarrow> string \<Rightarrow> piece list \<Rightarrow> bool" where
  "renders eng path ps \<longleftrightarrow>
     (\<exists>temp. parse_template eng path = Inr temp \<and>
        (\<forall>data. (\<forall>v\<in>set (holes ps). smap_get data v \<noteq> None) \<longrightarrow>
           render eng temp data = Inr (fill ps (smap_get data))))"

definition site_ok :: "('d, 't) env \<Rightarrow> bool" where
  "site_ok e \<longleftrightarrow>
     renders (templates e) (path_cat (get_config_doc_root (state e)) ''/post.html'') post_html \<and>
     renders (templates e) (path_cat (get_config_doc_root (state e)) ''/'' @ ''index.html'') index_html"

lemma renders_page:
  assumes "renders (templates e) path ps" and "\<forall>v\<in>set (holes ps). smap_get data v \<noteq> None"
  shows "page_response e req path data = ok_string (beast_version e) req (fill ps (smap_get data))"
  using assms by (auto simp: renders_def page_response_def)

text \<open>The page after a post, around its link.\<close>

definition link_text :: "string \<Rightarrow> string \<Rightarrow> string" where
  "link_text host token = ''<a href=\"http://'' @ host @ ''/'' @ token @ ''\">''"

definition target_text :: "string \<Rightarrow> string" where
  "target_text url = ''<a href=\"'' @ url @ ''\">'' @ url @ ''</a>''"

definition shows_link :: "string \<Rightarrow> string \<Rightarrow> string \<Rightarrow> string \<Rightarrow> bool" where
  "shows_link host token url page \<longleftrightarrow>
     (\<exists>a b c. page = a @ link_text host token @ b @ target_text url @ c)"

lemma post_page_text:
  assumes "data ''hostname'' = Some host" and "data ''token'' = Some token" and "data ''url'' = Some url"
  shows "shows_link host token url (fill post_html data)"
proof -
  let ?t = "''http://'' @ host @ ''/'' @ token @ ''</a></strong> goes to <strong>''"
  let ?pre = "fill post_head data @ replicate 3 CHR 0x09 @ ''<strong>''"
  let ?post = "''</strong>.'' @ [CHR 0x0A] @ fill post_foot data"
  have "fill post_html data = ?pre @ link_text host token @ ?t @ target_text url @ ?post"
    using assms by (simp add: post_html_def post_link_def line_def link_text_def target_text_def)
  then show ?thesis unfolding shows_link_def by blast
qed

text \<open>
  What a browser sends for the form of the first page, whose method is POST and whose encoding is the
  default: the one field, serialized as the URL standard says.
\<close>

definition submits :: "string \<Rightarrow> request \<Rightarrow> bool" where
  "submits u p \<longleftrightarrow> req_method p = Post \<and> req_target p = ''/post.html'' \<and>
     req_field p ''Content-Type'' = form_type \<and> req_body p = encode_form form_char [(''url'', u)]"

lemma submitted_url:
  assumes "env_ok rows e" and "submits u p"
  shows "request_url e p = Ok (Inr u)"
proof -
  have "request_url e p =
      Ok (case map_of (rev [(''url'', u)]) ''url'' of None \<Rightarrow> Inl ''No URL parameter passed'' | Some u \<Rightarrow> Inr u)"
    using assms by (intro request_url_form) (auto simp: submits_def env_ok_def)
  then show ?thesis by simp
qed

lemma submitted_page:
  assumes "site_ok e"
  shows "\<exists>page. page_response e p (path_cat (get_config_doc_root (state e)) ''/post.html'') (post_data e u token) =
           ok_string (beast_version e) p page \<and> shows_link (get_config_hostname (state e)) token u page"
proof -
  let ?data = "post_data e u token"
  have data: "smap_get ?data = [''hostname'' \<mapsto> get_config_hostname (state e), ''url'' \<mapsto> u, ''token'' \<mapsto> token]"
    by (simp add: post_data_def smap_get_put fun_eq_iff)
  have "\<forall>v\<in>set (holes post_html). smap_get ?data v \<noteq> None"
    by (simp add: page_holes data)
  then have "page_response e p (path_cat (get_config_doc_root (state e)) ''/post.html'') ?data =
      ok_string (beast_version e) p (fill post_html (smap_get ?data))"
    using assms by (intro renders_page) (simp_all add: site_ok_def)
  moreover have "shows_link (get_config_hostname (state e)) token u (fill post_html (smap_get ?data))"
    by (rule post_page_text) (simp_all add: data)
  ultimately show ?thesis by blast
qed

text \<open>From the submission of the form to the redirect.\<close>

lemma submission_leads_back:
  assumes inv: "store_inv rows e w" and av: "sqlite_available (sql e) rows" and site: "site_ok e"
    and p: "submits u p" and u: "http_url u" "NUL \<notin> set u"
    and token: "generate_random_filename (boost e) (rand e) (rd_count w) = Some (token, n)"
    and fresh: "token \<notin> fst ` set (table rows e w)" "u \<notin> snd ` set (table rows e w)"
  shows "\<exists>w1 page. handle_request e p w = Ok w1 \<and> sent w1 = sent w @ [ok_string (beast_version e) p page] \<and>
           shows_link (get_config_hostname (state e)) token u page \<and>
           (\<forall>between w2 g. run_steps (handle_request e) between w1 = Ok w2 \<and> req_method g = Get \<and>
              req_target g = CHR ''/'' # token \<longrightarrow>
              (\<exists>w3. handle_request e g w2 = Ok w3 \<and> sent w3 = sent w2 @ [redirect_permanent (beast_version e) g u]))"
proof -
  have env: "env_ok rows e" using inv by (simp add: store_inv_def)
  have cu: "cstr u = u" using u(2) by (rule cstr_id)
  have post: "req_method p = Post" "req_target p = ''/post.html''" using p by (simp_all add: submits_def)
  obtain w1 where w1: "handle_request e p w = Ok w1" "store_inv rows e w1" "is_token token"
    "map_of (table rows e w1) token = Some u"
    and page: "sent w1 = sent w @ [page_response e p (path_cat (get_config_doc_root (state e)) ''/post.html'')
      (post_data e u token)]"
    using posted_link [OF inv av post submitted_url [OF env p] u(1) token fresh(1)] fresh(2) cu by auto
  obtain pg where "page_response e p (path_cat (get_config_doc_root (state e)) ''/post.html'') (post_data e u token) =
      ok_string (beast_version e) p pg" "shows_link (get_config_hostname (state e)) token u pg"
    using submitted_page [OF site] by blast
  moreover have "\<forall>between w2 g. run_steps (handle_request e) between w1 = Ok w2 \<and> req_method g = Get \<and>
      req_target g = CHR ''/'' # token \<longrightarrow>
      (\<exists>w3. handle_request e g w2 = Ok w3 \<and> sent w3 = sent w2 @ [redirect_permanent (beast_version e) g u])"
    using stored_link_redirects [OF w1(2) av w1(3,4)] by blast
  ultimately show ?thesis using page w1(1) by (intro exI [of _ w1] exI [of _ pg]) simp
qed

section \<open>A concrete site\<close>

definition site_templates :: "piece list inja" where
  "site_templates =
     \<lparr>parse_template = (\<lambda>path.
        if path = ''./post.html'' then Inr post_html
        else if path = ''./index.html'' then Inr index_html else Inl ''no such file''),
      render = (\<lambda>ps data. Inr (fill ps (smap_get data)))\<rparr>"

definition site_env :: "(string \<Rightarrow> url_rows, piece list) env" where
  "site_env =
     \<lparr>state = state demo_env, boost = boost_ref, rand = rng_low, sql = sqlite_ref,
      parser = (\<lambda>_ _. []), templates = site_templates,
      file_open = (\<lambda>_. NoSuchFile), beast_version = ''Boost.Beast/300''\<rparr>"

lemma site_env_simps [simp]:
  "boost site_env = boost_ref" "rand site_env = rng_low" "sql site_env = sqlite_ref" "state site_env = state demo_env"
  by (simp_all add: site_env_def)

lemma site_env_ok [simp]: "env_ok (\<lambda>d. d) site_env"
  using demo_env_ok by (simp add: env_ok_def)

lemma site_store_inv [simp]: "store_inv (\<lambda>d. d) site_env demo_world"
  by (simp add: store_inv_def demo_world_def table_ok_def)

lemma site_env_site_ok [simp]: "site_ok site_env"
  by (simp add: site_ok_def renders_def path_cat_def) (simp add: site_env_def site_templates_def)

definition submission :: "string \<Rightarrow> request" where
  "submission u = demo_post\<lparr>req_body := encode_form form_char [(''url'', u)]\<rparr>"

lemma submission_submits [simp]: "submits u (submission u)"
  by (simp add: submits_def submission_def demo_post_def)

lemma site_token:
  "\<exists>token n. generate_random_filename (boost site_env) (rand site_env) (rd_count demo_world) = Some (token, n)"
  using generate_random_filename_token [OF boost_ref_ok rng_low_ok, of "rd_count demo_world"] by auto

text \<open>
  Line breaks in a posted URL are neither refused nor encoded: they arrive in the header field of the
  redirect.
\<close>

lemma line_break_reaches_header:
  "\<exists>u g w1 w3 r. http_url u \<and> CHR 0x0D \<in> set u \<and> CHR 0x0A \<in> set u \<and>
     handle_request site_env (submission u) demo_world = Ok w1 \<and> handle_request site_env g w1 = Ok w3 \<and>
     sent w3 = sent w1 @ [r] \<and> smap_get (res_fields r) ''Location'' = Some u"
proof -
  let ?u = "''http://a'' @ [CHR 0x0D, CHR 0x0A] @ ''X: 1''"
  obtain token n where token:
    "generate_random_filename (boost site_env) (rand site_env) (rd_count demo_world) = Some (token, n)"
    using site_token by blast
  let ?g = "demo_get (CHR ''/'' # token)"
  have u: "http_url ?u" "NUL \<notin> set ?u" by code_simp+
  obtain w1 where w1: "handle_request site_env (submission ?u) demo_world = Ok w1"
    and follow: "\<forall>between w2 g. run_steps (handle_request site_env) between w1 = Ok w2 \<and> req_method g = Get \<and>
       req_target g = CHR ''/'' # token \<longrightarrow>
       (\<exists>w3. handle_request site_env g w2 = Ok w3 \<and> sent w3 = sent w2 @ [redirect_permanent (beast_version site_env) g ?u])"
    using submission_leads_back [OF site_store_inv _ site_env_site_ok submission_submits u token] by auto
  have "run_steps (handle_request site_env) [] w1 = Ok w1 \<and> req_method ?g = Get \<and> req_target ?g = CHR ''/'' # token"
    by (simp add: demo_get_def)
  with follow obtain w3 where "handle_request site_env ?g w1 = Ok w3"
    "sent w3 = sent w1 @ [redirect_permanent (beast_version site_env) ?g ?u]"
    by blast
  with u(1) w1 show ?thesis
    by (intro exI [of _ ?u] exI [of _ ?g] exI [of _ w1] exI [of _ w3]
        exI [of _ "redirect_permanent (beast_version site_env) ?g ?u"]) simp
qed

section \<open>Properties\<close>

text \<open>
  C2: A visitor's way through the site: the form of the first page, submitted by a browser in the
  encoding of HTML forms with a web URL, is answered with the page whose link is the host and the
  new token and whose text shows the URL; whatever requests come in between, following that link
  leads back to exactly that URL. The URL and the token are new, and SQLite does not fail.
\<close>

theorem visitor_journey:
  assumes "store_inv rows e w" and "sqlite_available (sql e) rows" and "site_ok e"
    and "submits u p" and "http_url u" and "NUL \<notin> set u"
    and "generate_random_filename (boost e) (rand e) (rd_count w) = Some (token, n)"
    and "token \<notin> fst ` set (table rows e w)" and "u \<notin> snd ` set (table rows e w)"
    and "run_steps (handle_request e) (p # between) w = Ok w2"
    and "req_method g = Get" and "req_target g = CHR ''/'' # token"
  shows "\<exists>w1 w3 page. handle_request e p w = Ok w1 \<and> sent w1 = sent w @ [ok_string (beast_version e) p page] \<and>
           shows_link (get_config_hostname (state e)) token u page \<and>
           handle_request e g w2 = Ok w3 \<and> sent w3 = sent w2 @ [redirect_permanent (beast_version e) g u]"
proof -
  from submission_leads_back [OF assms(1-9)] obtain w1 page where w1: "handle_request e p w = Ok w1"
    "sent w1 = sent w @ [ok_string (beast_version e) p page]"
    "shows_link (get_config_hostname (state e)) token u page"
    and follow: "\<forall>between w2 g. run_steps (handle_request e) between w1 = Ok w2 \<and> req_method g = Get \<and>
       req_target g = CHR ''/'' # token \<longrightarrow>
       (\<exists>w3. handle_request e g w2 = Ok w3 \<and> sent w3 = sent w2 @ [redirect_permanent (beast_version e) g u])"
    by blast
  have "run_steps (handle_request e) between w1 = Ok w2" using assms(10) w1(1) by simp
  with follow assms(11,12) w1 show ?thesis by blast
qed

theorem visitor_journey_witness:
  "\<exists>w1 w3 token page. handle_request site_env (submission ''http://a.b/c-d?x=1&y z'') demo_world = Ok w1 \<and>
     shows_link ''z6a.info'' token ''http://a.b/c-d?x=1&y z'' page \<and>
     sent w1 = [ok_string ''Boost.Beast/300'' (submission ''http://a.b/c-d?x=1&y z'') page] \<and>
     handle_request site_env (demo_get (CHR ''/'' # token)) w1 = Ok w3 \<and>
     sent w3 = sent w1 @ [redirect_permanent ''Boost.Beast/300'' (demo_get (CHR ''/'' # token)) ''http://a.b/c-d?x=1&y z'']"
proof -
  let ?u = "''http://a.b/c-d?x=1&y z''"
  obtain token n where token:
    "generate_random_filename (boost site_env) (rand site_env) (rd_count demo_world) = Some (token, n)"
    using site_token by blast
  have u: "http_url ?u" "NUL \<notin> set ?u" by code_simp+
  obtain w1 where "handle_request site_env (submission ?u) demo_world = Ok w1"
    using submission_leads_back [OF site_store_inv _ site_env_site_ok submission_submits u token] by auto
  then have run: "run_steps (handle_request site_env) (submission ?u # []) demo_world = Ok w1" by simp
  obtain w1' w3 page where "handle_request site_env (submission ?u) demo_world = Ok w1'"
      "sent w1' = sent demo_world @ [ok_string (beast_version site_env) (submission ?u) page]"
      "shows_link (get_config_hostname (state site_env)) token ?u page"
      "handle_request site_env (demo_get (CHR ''/'' # token)) w1 = Ok w3"
      "sent w3 = sent w1 @ [redirect_permanent (beast_version site_env) (demo_get (CHR ''/'' # token)) ?u]"
    using visitor_journey [OF site_store_inv _ site_env_site_ok submission_submits u token _ _ run,
        of "demo_get (CHR ''/'' # token)"]
    by (auto simp: demo_get_def)
  moreover have "get_config_hostname (state site_env) = ''z6a.info''"
    by (simp add: demo_env_def ServerState_def config_defs empty_toml_def)
  moreover have "beast_version site_env = ''Boost.Beast/300''" by (simp add: site_env_def)
  moreover have "sent demo_world = []" by (simp add: demo_world_def)
  ultimately show ?thesis using run
    by (intro exI [of _ w1] exI [of _ w3] exI [of _ token] exI [of _ page]) simp
qed

text \<open>The first page: it names the host, and its form posts the field to the page above.\<close>

theorem first_page_shown:
  assumes "site_ok e" and "req_method req = Get" and "req_target req = ''/''"
  shows "\<exists>w'. handle_request e req w = Ok w' \<and> db w' = db w \<and>
           sent w' = sent w @ [ok_string (beast_version e) req
             (fill index_html [''hostname'' \<mapsto> get_config_hostname (state e)])]"
proof -
  let ?data = "smap_put ''hostname'' (get_config_hostname (state e)) []"
  let ?path = "path_cat (get_config_doc_root (state e)) ''/'' @ ''index.html''"
  have data: "smap_get ?data = [''hostname'' \<mapsto> get_config_hostname (state e)]"
    by (simp add: smap_get_put fun_eq_iff)
  have "page_response e req ?path ?data = ok_string (beast_version e) req (fill index_html (smap_get ?data))"
    using assms(1) by (intro renders_page) (simp_all add: site_ok_def page_holes data)
  moreover have "find_route routes ''/'' = Some HandleGetTemplate" "\<not> illegal_target ''/''" by code_simp+
  ultimately show ?thesis
    using assms(2,3) data
    by (simp add: handle_request_eq handle_get_template_def template_path_def serve_template_eq)
qed

end
