(* ===== verification/Spec2Isabelle.thy ===== *)
theory Spec2Isabelle
  imports Program Endings Limits Persistence Sample_Config Site
begin

text \<open>
  A verification development of shadyurl, a URL shortener with its own HTTP and HTTPS server in C++.
  A client posts a URL to \<^verbatim>\<open>/post.html\<close>; the server invents a shady looking name for it,
  stores both in SQLite, and redirects whoever asks for the name.

  \<^bold>\<open>The parts and their theories\<close>

  \<^item> \<open>Prelude\<close>: results with the exceptions of the program and undefined behaviour as values
    (\<open>res\<close>), strings as the program reads them (\<open>cstr\<close>, \<open>str_at\<close>, searches), ordered maps
    (\<open>smap\<close>), and two interfaces: \<open>codec\<close> and \<open>field_codec\<close>, an encoder whose decoder gives the
    value back.
  \<^item> \<open>Boost_Strings\<close>: the string algorithms of Boost that the program calls, a parameter with its
    documented contract (\<open>boost_ok\<close>) and one instance (\<open>boost_ref\<close>).
  \<^item> \<open>Parse_Qs\<close> (\<^verbatim>\<open>src/parseqs.cpp\<close>): \<open>unquote_loop\<close> is the loop with the index and the
    two characters it looks ahead, where a read beyond the end is undefined behaviour, and so is a byte
    that \<^verbatim>\<open>std::isdigit\<close> must not be given; \<open>pct_decode\<close>, over a table of digits, is the
    reference it is compared with. The encoders of clients are there too, \<open>form_char\<close> that of a browser.
  \<^item> \<open>Mime\<close>, \<open>Path\<close> (\<^verbatim>\<open>src/mime.cpp\<close>, \<^verbatim>\<open>src/path.cpp\<close>): the table of MIME types and its
    file, lookups by suffix, joining the document root and a target.
  \<^item> \<open>Multipart\<close> (\<^verbatim>\<open>src/multipart_wrapper.cpp\<close>): header values with quoted parameters, and
    the callbacks over the events of the parser library.
  \<^item> \<open>Generate\<close> (\<^verbatim>\<open>src/generate.cpp\<close>): the word table and the generator of names.
  \<^item> \<open>Regex\<close>, \<open>Routes\<close>: an executable matcher for the expressions of the routing table, proved
    equal to the inductive relation \<open>matches\<close>; the table of \<^verbatim>\<open>handle_request\<close> and what each
    of its entries accepts.
  \<^item> \<open>Logging\<close>, \<open>Server_State\<close>, \<open>Certificate\<close>: the files of the same names.
  \<^item> \<open>Sqlite_Helper\<close>, \<open>Response\<close>, \<open>Request\<close> (\<^verbatim>\<open>include/request.hpp\<close>,
    \<^verbatim>\<open>include/sqlite_helper.hpp\<close>): the responses, the four handlers and the dispatcher. A
    handler that uses the database is translated in two phases, up to its one call of
    \<^verbatim>\<open>sqlite3_step\<close> and from it on (\<open>begin_request\<close>, \<open>finish_request\<close>); a handler on its own
    is their composition (\<open>handle_request\<close>). The state
    is the record \<open>world\<close>: the files of SQLite, the count of random seeds drawn, the log, the
    operations on files and connections in order, the responses sent.
  \<^item> \<open>Request_Effects\<close>: what each handler does to the world, one lemma per handler.
  \<^item> \<open>Shortener\<close>, \<open>Service\<close>: the table of links across requests. The abstract specification is a
    map that grows by one fresh link at a time (\<open>link_step\<close>); the interfaces \<open>responder\<close> and
    \<open>link_store\<close> are interpreted on \<open>handle_request\<close>.
  \<^item> \<open>Pages\<close>, \<open>Forms\<close>: what a client sees (the form of responses, files, the page after a post,
    failed lookups; a second interpretation of \<open>responder\<close>), and what is found in the forms it posts.
  \<^item> \<open>Site\<close> (\<^verbatim>\<open>server/index.html\<close>, \<^verbatim>\<open>server/post.html\<close>,
    \<^verbatim>\<open>init.sh\<close>): the two pages as templates, the table with its constraints, and a visitor's
    way from the form to the redirect.
  \<^item> \<open>Session\<close>, \<open>Acceptor\<close> (\<^verbatim>\<open>src/session.cpp\<close>, \<^verbatim>\<open>include/session.hpp\<close>): the queue for
    pipelining and the session with its completion handlers; the detector and the listener. The
    operations in flight are part of the state, with the times by which they complete;
    \<open>session_move\<close> completes one of them, \<open>session_step\<close> also lets time pass. The interface
    \<open>send_queue\<close> is interpreted on the queue.
  \<^item> \<open>Timeouts\<close>: how long a session lasts under the time limits it sets, and what it has delivered
    at rest.
  \<^item> \<open>Persistence\<close>: which response is the last of its connection.
  \<^item> \<open>Phases\<close>: what each of the two phases does, whatever happens to the database between them.
  \<^item> \<open>System\<close>: the event loop. The record \<open>server\<close> holds listeners, detectors, sessions, the world
    they share, the wait for a signal; \<open>server_step\<close> completes any operation in flight of any of
    them, or ends the program where a handler does not return. The phases of handlers of different
    sessions interleave; the session whose handler is between its phases is busy, as on its strand.
    Time passes for all sessions and detectors at once (\<open>pass_time\<close>).
  \<^item> \<open>Concurrency\<close>: the server against the abstract map of links, and what concurrent lookups and
    posts see.
  \<^item> \<open>Limits\<close>: what the limit on the body of a request means for the table, with all connections
    and threads.
  \<^item> \<open>Endings\<close>: the time limits of detections and sessions in the whole server, and the way from a signal to the
    return of \<^verbatim>\<open>run()\<close>.
  \<^item> \<open>Daemon\<close> (\<^verbatim>\<open>src/daemon.cpp\<close>): a process as the list of its system calls with their
    results; the parts of \<open>daemonise\<close> obey one contract (\<open>part\<close>), which is closed under \<open>and_then\<close>.
  \<^item> \<open>Main_Prog\<close> (\<^verbatim>\<open>src/main.cpp\<close>): the stages of the start, with a contract for stages
    (\<open>stage_ok\<close>), and the threads that are started one by one.
  \<^item> \<open>Sample_Config\<close> (\<^verbatim>\<open>config.toml.example\<close>, \<^verbatim>\<open>mimetypes.txt\<close>): the
    sample configuration and the shipped table of types, a whole start with both, and the directory a
    daemon serves from.
  \<^item> \<open>Program\<close>: a run of the program, from the first stage through the event loop over the listeners
    that the start has launched to the exit, also where not all threads could be started.

  \<^bold>\<open>What is shown\<close>

  The handlers: exactly one response per request, in order; exactly when one throws and when its
  behaviour is undefined; at most one step of a statement per request; SQLite objects in order and released on every path; no file above the document root;
  the refinement to the map of links, its invariant, permanence, and the round trip of posting and
  following. The parsers: round trips with their encoders, equality with reference definitions, the
  guard on the number of fields. The generator: it always returns, and what it returns is routed to
  the lookup. The pages: every response is well formed, HEAD agrees with GET, the page shows the link
  that was stored, and the visitor who follows it comes back to the URL typed into the form. The
  sessions: order of responses and their delivery, bounds, no stall, nothing written after the end,
  a request to close obeyed (except by a redirect), and the end comes, in a bounded number of steps and in bounded time; without requests no client
  keeps a session. The server, with handlers on several threads: it refines the map of links,
  redirects only to stored links, finds what was stored before unless SQLite fails, accepts one of two concurrent posts
  of a URL, stores no URL longer than the limit on a body; no connection is lost; a flood of
  form fields and a bad escape, which fit that limit, can end it, and nothing else that a handler throws;
  its loop returns only after a signal, and then always. The start: privileges, the steps of the daemon, the
  pid file, no silent failure, a daemon at the root directory. The program: how its exit code, its loop and its table go together.

  \<^bold>\<open>Loops and bounds\<close>

  The loop of \<open>generate_randstr\<close> draws its bound again in every round and is a partial function; it is
  shown to return because the bound is never above 15. All other loops are total functions by
  structure or by the length of the rest of the input. Ports, the thread count, user and group
  numbers and flags are words of their width; the thread count minus one wraps. The queue holds eight
  responses, a body at most 10000 bytes, a time limit is 30 seconds, as in the source; time is
  counted in nanoseconds, the unit of the clock behind \<^verbatim>\<open>expires_after\<close>.

  \<^bold>\<open>Parameters\<close>

  Boost.Asio, Boost.Beast, OpenSSL, SQLite, the template engine, the TOML and multipart parsers, the
  random engine and the operating system are arguments of the definitions. What is assumed of them is
  stated as \<open>boost_ok\<close>, \<open>rng_ok\<close>, \<open>sqlite_ok\<close> (where SQLite must not fail,
  \<open>sqlite_available\<close>), for the template engine where a page matters \<open>renders\<close>, and for Beast's
  test whether a response ends its connection \<open>closes\<close>; each has an instance. Of the timer of Beast,
  \<open>expires_after\<close>, \<open>time_limit\<close> and \<open>in_time\<close> state what its documentation says: a time that is
  set applies to the operations started after it, and none of them is in flight when its time is over;
  it may fail at any time before. Of the limit on a body, \<open>admits\<close> states that a read of a longer
  one fails; of the multipart parser, \<open>reports_pieces\<close> that it reports pieces of its input. The
  targets are platforms where \<^verbatim>\<open>char\<close> is signed. Drawing from the two static distributions of
  \<^verbatim>\<open>generate_randstr\<close>, which all threads share, changes the engine only, as in libstdc++. A call of \<^verbatim>\<open>sqlite3_step\<close> is atomic, which is what SQLite
  promises of a statement on its own; it is the only call of a handler that reads or changes the rows.
  All else a handler does concerns its own request, the log and the random seeds.

  Undefined behaviour is a result like an exception: a run that meets it ends there, and nothing is
  claimed of what the program does from then on.

  \<^bold>\<open>Not modelled\<close>

  When operations complete within their time (any order is allowed), the time handlers take and wait
  for a thread, which thread runs a handler, the bytes of HTTP and TLS; the contents of served files,
  of which a response has the path and the size at opening; the branch for a Windows compiler in
  \<^verbatim>\<open>path_cat\<close>; a failing write of the pid file after it was opened; signals before the loop
  runs; the accessors of the streams and the declarations of the headers, which the definitions of
  their functions stand for; the DH parameters that the shell script makes.
\<close>

section \<open>The server as a whole\<close>

text \<open>
  C3: Any number of connections share the table of links. However accepts, detections, reads, writes
  and handlers interleave, and whatever fails, the table keeps its invariant, no link that was
  there is lost or changed, and in every session the responses handed to the stream or waiting
  answer the requests read, one by one and in order, with at most eight waiting.
\<close>

theorem server_invariant:
  assumes "store_inv rows e w0" and "\<forall>l\<in>set ls. accepts l = 1 \<and> launched l = []"
    and "(server_step e need_eof)\<^sup>*\<^sup>* (boot ls w0) c"
  shows "table_ok (table rows e (sv_world c)) \<and>
         map_of (table rows e w0) \<subseteq>\<^sub>m map_of (table rows e (sv_world c)) \<and>
         (\<forall>s\<in>set (sv_sessions c).
            list_all2 (answers (beast_version e)) (requests s) (started s @ drop 1 (items s)) \<and>
            length (items s) \<le> 8)"
  using server_run_inv [OF assms(3) boot_inv [OF assms(1,2)]]
  by (auto simp: server_inv_def store_inv_def session_inv_def answered_def flow_ok_def queue_limit_def)

theorem server_invariant_witness:
  "\<exists>c s. (server_step demo_env (\<lambda>_. False))\<^sup>*\<^sup>* (boot [demo_listener] demo_world) c \<and>
         table_ok (db (sv_world c) ''urls.db'') \<and> sv_sessions c = [s] \<and> requests s = [demo_get ''x''] \<and>
         list_all2 (answers (beast_version demo_env)) [demo_get ''x''] (started s @ drop 1 (items s))"
proof -
  obtain c s where run: "(server_step demo_env (\<lambda>_. False))\<^sup>*\<^sup>* (boot [demo_listener] demo_world) c"
    and s: "sv_sessions c = [s]" "requests s = [demo_get ''x'']"
    using demo_served by blast
  from server_invariant [OF demo_store_inv demo_listeners run] run s show ?thesis by auto
qed

text \<open>
  C18: No connection is lost: at any time there are as many detectors as accepts have completed
  without error; a detector has at most one operation in flight, and none once it has given its
  stream away; there are as many sessions as detectors that gave their stream away; and every
  listener has an accept in flight.
\<close>

theorem connections_accounted:
  assumes "store_inv rows e w0" and "\<forall>l\<in>set ls. accepts l = 1 \<and> launched l = []"
    and "(server_step e need_eof)\<^sup>*\<^sup>* (boot ls w0) c"
  shows "length (sv_detectors c) = sv_accepted c \<and>
         length (sv_sessions c) = length (filter (\<lambda>d. \<not> owns_stream d) (sv_detectors c)) \<and>
         (\<forall>d\<in>set (sv_detectors c). dispatched d + detecting d \<le> (if owns_stream d then 1 else 0)) \<and>
         (\<forall>l\<in>set (sv_listeners c). accepts l = 1)"
  using server_run_inv [OF assms(3) boot_inv [OF assms(1,2)]]
  by (auto simp: server_inv_def objects_ok_def accounted_def detector_ok_def)

theorem connections_accounted_witness:
  "\<exists>c. (server_step demo_env (\<lambda>_. False))\<^sup>*\<^sup>* (boot [demo_listener] demo_world) c \<and>
       length (filter (\<lambda>d. \<not> owns_stream d) (sv_detectors c)) = 1 \<and> 1 \<le> sv_accepted c"
proof -
  obtain c s where run: "(server_step demo_env (\<lambda>_. False))\<^sup>*\<^sup>* (boot [demo_listener] demo_world) c"
    and s: "sv_sessions c = [s]"
    using demo_served by blast
  note acc = connections_accounted [OF demo_store_inv demo_listeners run]
  then have one: "length (filter (\<lambda>d. \<not> owns_stream d) (sv_detectors c)) = 1" using s by simp
  then have "1 \<le> sv_accepted c" using acc length_filter_le [of "\<lambda>d. \<not> owns_stream d" "sv_detectors c"] by simp
  with one run show ?thesis by blast
qed

text \<open>
  C8: What a client can do to the whole server: a step can end it abnormally exactly while some session
  has a read in flight and no handler at work, and in two ways, both open then: the
  \<^verbatim>\<open>length_error\<close> of a form with too many fields leaves the event loop, and a form with a byte
  from \<^verbatim>\<open>0x80\<close> on in an escape makes the behaviour undefined; the limit on a body leaves room
  for either. No other exception leaves a handler, and the assertion of the queue never fails.
\<close>

theorem server_crash:
  assumes "store_inv rows e w0" and "\<forall>l\<in>set ls. accepts l = 1 \<and> launched l = []"
    and "(server_step e need_eof)\<^sup>*\<^sup>* (boot ls w0) c" and "sv_crash c = None"
  shows "(\<exists>c'. server_step e need_eof c c' \<and> sv_crash c' = Some x) \<longleftrightarrow>
         running c \<and> (x = Escaped LengthError \<or> x = UndefinedBehaviour) \<and>
         (\<exists>i<length (sv_sessions c). \<not> busy c i \<and> 0 < reads (sv_sessions c ! i))"
proof
  assume "\<exists>c'. server_step e need_eof c c' \<and> sv_crash c' = Some x"
  then obtain c' where "server_step e need_eof c c'" "sv_crash c' = Some x" by blast
  with server_run_inv [OF assms(3) boot_inv [OF assms(1,2)]] assms(4)
  show "running c \<and> (x = Escaped LengthError \<or> x = UndefinedBehaviour) \<and>
      (\<exists>i<length (sv_sessions c). \<not> busy c i \<and> 0 < reads (sv_sessions c ! i))"
    using step_crash by blast
next
  assume "running c \<and> (x = Escaped LengthError \<or> x = UndefinedBehaviour) \<and>
      (\<exists>i<length (sv_sessions c). \<not> busy c i \<and> 0 < reads (sv_sessions c ! i))"
  then obtain i where i: "running c" "i < length (sv_sessions c)" "\<not> busy c i" "0 < reads (sv_sessions c ! i)"
    and x: "x = Escaped LengthError \<or> x = UndefinedBehaviour"
    by blast
  have "env_ok rows e" "session_inv (beast_version e) (sv_sessions c ! i)"
    using server_run_inv [OF assms(3) boot_inv [OF assms(1,2)]] i(2) by (simp_all add: server_inv_def store_inv_def)
  then have "session_crash e need_eof (sv_sessions c ! i, sv_world c) x"
    using i(4) x by (rule read_crashes)
  with i(1-3) have "server_step e need_eof c (c\<lparr>sv_crash := Some x\<rparr>)"
    by (rule Crashed)
  then show "\<exists>c'. server_step e need_eof c c' \<and> sv_crash c' = Some x"
    by (intro exI [of _ "c\<lparr>sv_crash := Some x\<rparr>"]) simp
qed

theorem server_crash_witness:
  "\<exists>c c1 c2. (server_step demo_env (\<lambda>_. False))\<^sup>*\<^sup>* (boot [demo_listener] demo_world) c \<and>
     server_step demo_env (\<lambda>_. False) c c1 \<and> sv_crash c1 = Some (Escaped LengthError) \<and>
     server_step demo_env (\<lambda>_. False) c c2 \<and> sv_crash c2 = Some UndefinedBehaviour"
proof -
  obtain c s where run: "(server_step demo_env (\<lambda>_. False))\<^sup>*\<^sup>* (boot [demo_listener] demo_world) c"
    and c: "running c" "sv_sessions c = [s]" "0 < reads s" "sv_jobs c = []"
    using demo_served by blast
  have "sv_crash c = None" using c(1) by (simp add: running_def)
  note iff = server_crash [OF demo_store_inv demo_listeners run this]
  have "\<exists>i<length (sv_sessions c). \<not> busy c i \<and> 0 < reads (sv_sessions c ! i)"
    using c by (intro exI [of _ 0]) (simp add: busy_def)
  with iff [of "Escaped LengthError"] iff [of UndefinedBehaviour] c(1) run show ?thesis by blast
qed

text \<open>
  C16: The comment after the event loop is true: \<^verbatim>\<open>run()\<close> returns only because
  \<^verbatim>\<open>SIGINT\<close> or \<^verbatim>\<open>SIGTERM\<close> was received, once the handlers at work have finished, and
  never because the work ran out, whatever the clients do and however often accepts fail.
\<close>

theorem loop_ends_by_signal:
  assumes "store_inv rows e w0" and "\<forall>l\<in>set ls. accepts l = 1 \<and> launched l = []"
    and "(server_step e need_eof)\<^sup>*\<^sup>* (boot ls w0) c"
  shows "run_returns c \<longleftrightarrow> sv_stopped c \<and> sv_jobs c = [] \<and> sv_crash c = None"
  using server_run_inv [OF assms(3) boot_inv [OF assms(1,2)]] signal_outstanding [of c]
  by (cases "sv_stopped c") (auto simp: server_inv_def run_returns_def)

theorem loop_ends_by_signal_witness:
  "\<exists>c. (server_step demo_env (\<lambda>_. False))\<^sup>*\<^sup>* (boot [demo_listener] demo_world) c \<and> \<not> run_returns c \<and>
       (\<exists>c'. server_step demo_env (\<lambda>_. False) c c' \<and> run_returns c')"
proof -
  obtain c s where run: "(server_step demo_env (\<lambda>_. False))\<^sup>*\<^sup>* (boot [demo_listener] demo_world) c"
    and c: "running c" "sv_jobs c = []"
    using demo_served by blast
  note iff = loop_ends_by_signal [OF demo_store_inv demo_listeners]
  have "sv_signals c = Suc 0"
    using server_run_inv [OF run demo_boot_inv] c by (simp add: server_inv_def objects_ok_def running_def)
  from Signalled [OF c(1) this] obtain c' where step: "server_step demo_env (\<lambda>_. False) c c'"
    and c': "c' = on_signal (c\<lparr>sv_signals := 0\<rparr>)" by blast
  have "(server_step demo_env (\<lambda>_. False))\<^sup>*\<^sup>* (boot [demo_listener] demo_world) c'"
    using run step by (rule rtranclp.rtrancl_into_rtrancl)
  from iff [OF this] iff [OF run] c c' run step show ?thesis
    by (auto simp: running_def on_signal_def)
qed

text \<open>
  C4: The program as a whole. A run in which no thread enters the event loop returns
  \<^verbatim>\<open>EXIT_FAILURE\<close> with a report, if it returns at all: it may also stop in an exception, in a
  parent of the daemon, or be undefined by the pid file it finds. In a run that served clients, one of
  four things happened: a signal stopped the loop, the program returned \<^verbatim>\<open>EXIT_SUCCESS\<close>, and the
  last thing it did was to try to remove the pid file, which is gone if the call succeeded; a flood of
  form fields came and the exception was not caught; a request made the behaviour undefined; or a worker
  thread could not be created while those before it were serving, and that exception was not caught. In
  all four the table is well formed up to there and has lost no link.
\<close>

theorem program_outcome:
  assumes "program m e need_eof p w out s final"
    and "\<forall>st. from_files m st \<longrightarrow> store_inv rows (serving m st e) w"
  shows "case final of
      None \<Rightarrow> m_started s = 0 \<and> (\<forall>n. out = Returned n \<longrightarrow> n = 1 \<and> reported s)
    | Some c \<Rightarrow>
        (out = Returned 0 \<and> sv_crash c = None \<and> sv_stopped c \<and>
           (\<exists>as x. calls (m_proc s) = as @ [(Unlink pid_file_path, x)] \<and> (x = 0 \<longrightarrow> pid_file (m_proc s) = None)) \<or>
         out = Uncaught \<and> sv_crash c = Some (Escaped LengthError) \<or>
         out = Undefined \<and> sv_crash c = Some UndefinedBehaviour \<or>
         out = Uncaught \<and> sv_crash c = None \<and> m_workers s = None \<and> m_thread m (m_started s) = Exn SystemError) \<and>
        (\<exists>st. from_files m st \<and> table_ok (table rows (serving m st e) (sv_world c)) \<and>
              map_of (table rows (serving m st e) w) \<subseteq>\<^sub>m map_of (table rows (serving m st e) (sv_world c)))"
proof (cases final)
  case None
  then show ?thesis
    using assms(1) main_runs main_stops by (auto elim!: program_endsE)
next
  case (Some c)
  with assms(1) have run: "program m e need_eof p w out s (Some c)" by simp
  obtain st where st: "from_files m st" and inv: "server_inv rows (serving m st e) c"
    and grows: "map_of (table rows (serving m st e) w) \<subseteq>\<^sub>m map_of (table rows (serving m st e) (sv_world c))"
    and ends: "served_to_end m out s c \<or> served_in_part m out s c"
    using program_loop [OF run assms(2)] by (elim exE conjE) (rule that)
  have tab: "table_ok (table rows (serving m st e) (sv_world c))"
    and crash: "sv_crash c \<in> {None, Some (Escaped LengthError), Some UndefinedBehaviour}"
    using inv by (simp_all add: server_inv_def store_inv_def)
  have signal: "sv_stopped c" if "run_returns c"
    using that inv signal_outstanding [of c] by (cases "sv_stopped c") (auto simp: server_inv_def run_returns_def)
  from ends have "out = Returned 0 \<and> sv_crash c = None \<and> sv_stopped c \<and>
           (\<exists>as x. calls (m_proc s) = as @ [(Unlink pid_file_path, x)] \<and> (x = 0 \<longrightarrow> pid_file (m_proc s) = None)) \<or>
         out = Uncaught \<and> sv_crash c = Some (Escaped LengthError) \<or>
         out = Undefined \<and> sv_crash c = Some UndefinedBehaviour \<or>
         out = Uncaught \<and> sv_crash c = None \<and> m_workers s = None \<and> m_thread m (m_started s) = Exn SystemError"
  proof
    assume "served_to_end m out s c"
    then show ?thesis
      using crash signal remove_pid_effect [of "m_os m"] by (fastforce simp: served_to_end_def)
  next
    assume "served_in_part m out s c"
    then show ?thesis using crash by (auto simp: served_in_part_def)
  qed
  with st tab grows Some show ?thesis by auto
qed

theorem program_outcome_witness:
  "\<exists>s c. program demo_main demo_env (\<lambda>_. False) demo_process demo_world (Returned 0) s (Some c) \<and> sv_stopped c"
proof -
  obtain s c where run: "program demo_main demo_env (\<lambda>_. False) demo_process demo_world (Returned 0) s (Some c)"
    using demo_program by blast
  from program_outcome [OF run demo_serving] run show ?thesis by auto
qed

text \<open>
  What the handlers of a session can do instead of returning, in every reachable state. The
  handler of a write always returns, the assertion of the queue included. The handler of a read
  lets exactly one exception out, that of a flooded form, which leaves the event loop and with
  it the program; its behaviour is undefined exactly when that of the request handler is.
\<close>

theorem session_handlers_return:
  assumes "env_ok rows e" and "reachable e need_eof (s, w)"
  shows "(writes s = xs @ m # ys \<longrightarrow> (\<exists>s'. on_write close ec (s\<lparr>writes := xs @ ys\<rparr>) = Ok s')) \<and>
         (on_read e ec req (s\<lparr>reads := n\<rparr>) w = UB \<longleftrightarrow> ec = Success \<and> (unsafe_form req \<or> unreadable_file e req)) \<and>
         (on_read e ec req (s\<lparr>reads := n\<rparr>) w = Exn x \<longleftrightarrow> ec = Success \<and> x = LengthError \<and> flooded req)"
  using reachable_inv [OF assms] on_write_returns [of _ s xs m ys close ec]
    on_read_outcome [OF assms(1)] handle_request_outcome [OF assms(1)] by simp

theorem session_handlers_return_witness:
  "\<exists>s w s'. reachable demo_env (\<lambda>_. False) (s, w) \<and> on_write False Success (s\<lparr>writes := []\<rparr>) = Ok s' \<and>
            on_read demo_env Success flood (s\<lparr>reads := 0\<rparr>) w = Exn LengthError"
proof -
  obtain s w m where s: "reachable demo_env (\<lambda>_. False) (s, w)" "writes s = [] @ m # []"
    using demo_reachable [of "\<lambda>_. False"] by auto
  with session_handlers_return [OF demo_env_ok s(1), of "[]" m "[]" False Success flood 0 LengthError] flood_flooded
  show ?thesis by auto
qed

end
